theory Spec2Isabelle
  imports Complex_Main "HOL-Library.AList"
begin

section \<open>The procedural scene populator of ascii-background.js\<close>

text \<open>
  The class \<^verbatim>\<open>AsciiBackground\<close> keeps a map \<^verbatim>\<open>loadedAetherytes\<close> (cell key to
  detailed object), an array \<^verbatim>\<open>distantStars\<close> and a frame counter, and repopulates
  the neighbourhood of the camera in \<^verbatim>\<open>updateProceduralAetherytes\<close>.

  Numbers. JavaScript numbers are binary64 doubles, and every arithmetic operation
  rounds its exact result to the nearest double, ties to even.

  \<^item> The hash \<^verbatim>\<open>seededRandom\<close>, the jitter \<^verbatim>\<open>gridToWorld\<close>, the grid-key derivation
    \<^verbatim>\<open>getGridPosition\<close>, the drift velocities drawn from the hash and the two steps
    that move the camera are modelled operation by operation: each \<^verbatim>\<open>*\<close>, \<^verbatim>\<open>+\<close>, \<^verbatim>\<open>-\<close>,
    \<^verbatim>\<open>/\<close> of the source is the exact operation on reals followed by the rounding
    \<open>fl\<close>, and a decimal literal is the double nearest to it.
    \<^verbatim>\<open>Math.round\<close>, \<^verbatim>\<open>Math.floor\<close> and \<^verbatim>\<open>Math.ceil\<close> are exact. \<^verbatim>\<open>Math.sin\<close> is left to
    the implementation by the language; it is modelled as the correctly rounded
    sine, and the proofs use of it only that it is \<open>0\<close> at \<open>0\<close>.
  \<^item> Integer-valued quantities (grid coordinates, loop counters, the frame counter)
    are modelled as \<open>int\<close>, and every addition the source performs on them goes
    through \<open>js_add\<close>, which rounds the exact sum in the same way: sums below
    \<open>2 ^ 53\<close> in magnitude are exact, larger ones are not.
  \<^item> The thresholds \<^verbatim>\<open>renderDistance * 1.2\<close> and \<^verbatim>\<open>detailDistance * 1.2\<close> of the sweep
    and the check radius \<^verbatim>\<open>Math.ceil(renderDistance / gridSize)\<close> are written without
    rounding: for the settings of the constructor their binary64 values are 360,
    180 and 3, as on the reals (\<open>settings_exact\<close>).
  \<^item> Positions are real triples. Distances (\<^verbatim>\<open>Vector3.distanceTo\<close>) and the frustum
    test belong to three.js, which is not part of the repository; the distance
    is the Euclidean one. The oscillation of the loaded crystals around their
    original position is computed on reals.

  Magnitudes of \<open>2 ^ 1024\<close> and more (\<^verbatim>\<open>Infinity\<close>) and \<^verbatim>\<open>NaN\<close> are outside the model;
  no value of that size arises in a run of the program.
\<close>

subsection \<open>Rounding to binary64\<close>

text \<open>Rounding a real to the nearest integer, ties to even.\<close>

definition rne :: "real \<Rightarrow> int" where
  "rne y =
     (let f = \<lfloor>y\<rfloor>; d = y - of_int f in
      if d < 1 / 2 then f else if 1 / 2 < d then f + 1 else if even f then f else f + 1)"

text \<open>
  Rounding a real to the nearest double: with \<open>e\<close> the binary exponent of \<open>x\<close>
  (at least \<open>-1022\<close>, below which doubles are subnormal and equally spaced), the
  doubles around \<open>x\<close> are the multiples of \<open>2 ^ (e - 52)\<close>.
\<close>

definition fl :: "real \<Rightarrow> real" where
  "fl x =
     (if x = 0 then 0
      else
        let e = max \<lfloor>log 2 \<bar>x\<bar>\<rfloor> (- 1022); u = 2 powi (e - 52)
        in of_int (rne (x / u)) * u)"

subsection \<open>Integer-valued doubles\<close>

text \<open>
  The same rounding on integers, computed (\<open>dbl_fl\<close> below): \<open>expo n\<close> is the number
  of low bits of \<open>n\<close> that a double cannot hold.
\<close>

function expo :: "nat \<Rightarrow> nat" where
  "expo n = (if n < 2 ^ 53 then 0 else Suc (expo (n div 2)))"
  by pat_completeness auto
termination
  by (relation "measure (\<lambda>n. n)") auto

definition dbl_nat :: "nat \<Rightarrow> nat" where
  "dbl_nat n =
     (let q = 2 ^ expo n; m = n div q; r = n mod q in
      if 2 * r < q then m * q
      else if q < 2 * r then (m + 1) * q
      else if even m then m * q else (m + 1) * q)"

definition dbl :: "int \<Rightarrow> int" where
  "dbl n = (if n < 0 then - int (dbl_nat (nat (- n))) else int (dbl_nat (nat n)))"

definition js_add :: "int \<Rightarrow> int \<Rightarrow> int" where
  "js_add a b = dbl (a + b)"

definition js_sub :: "int \<Rightarrow> int \<Rightarrow> int" where
  "js_sub a b = dbl (a - b)"

subsection \<open>Data\<close>

type_synonym vec3 = "real \<times> real \<times> real"

type_synonym gridpos = "int \<times> int \<times> int"

text \<open>
  The camera is a \<^verbatim>\<open>THREE.PerspectiveCamera\<close>. Of it the populator reads the position
  and, through \<^verbatim>\<open>THREE.Frustum.containsPoint\<close>, whether a point lies in the view
  frustum; the library is not part of the repository, so the test is a field.
\<close>

record camera =
  cam_position :: vec3
  containsPoint :: "vec3 \<Rightarrow> bool"

text \<open>
  A renderable object with the \<^verbatim>\<open>userData\<close> fields the populator and the drift
  animation use. The key \<^verbatim>\<open>`${x},${y},${z}`\<close> is modelled by the triple it prints.
  Rotation, scale, spawn time and materials are cosmetic and left out; a star has
  no \<^verbatim>\<open>drift\<close> and its \<^verbatim>\<open>time\<close> is never read.
\<close>

record object3d =
  position :: vec3
  gridKey :: gridpos
  originalPosition :: "vec3 option"
  drift :: "vec3 option"
  time :: real

record state =
  frameCount :: int
  camera :: camera
  loadedAetherytes :: "(gridpos \<times> object3d) list"
  distantStars :: "object3d list"
  renderDistance :: real
  detailDistance :: real
  gridSize :: real
  aetheryteChance :: real

text \<open>
  The constructor and \<^verbatim>\<open>init\<close>, for a given initial frustum test. The literal
  \<^verbatim>\<open>0.3\<close> denotes the double nearest to it; the other settings are integers.
\<close>

definition constructed :: "(vec3 \<Rightarrow> bool) \<Rightarrow> state" where
  "constructed fr =
     \<lparr>frameCount = 0,
      camera = \<lparr>cam_position = (0, 5, 50), containsPoint = fr\<rparr>,
      loadedAetherytes = [],
      distantStars = [],
      renderDistance = 300,
      detailDistance = 150,
      gridSize = 100,
      aetheryteChance = fl (3 / 10)\<rparr>"

subsection \<open>Hash, grid and jitter\<close>

text \<open>
  \<^verbatim>\<open>x * 374761393 + y * 668265263 + z * 1274126177\<close> is three products and two
  sums, left to right; \<^verbatim>\<open>43758.5453\<close> is the double nearest to that decimal.
\<close>

definition seededRandom :: "int \<Rightarrow> int \<Rightarrow> int \<Rightarrow> real" where
  "seededRandom x y z =
     (let seed = fl (fl (fl (of_int x * 374761393) + fl (of_int y * 668265263))
                       + fl (of_int z * 1274126177));
          t = fl (fl (sin seed) * fl (437585453 / 10000))
      in fl (t - of_int \<lfloor>t\<rfloor>))"

text \<open>\<^verbatim>\<open>Math.round\<close> is \<open>round\<close>: the nearest integer, halves upwards.\<close>

definition getGridPosition :: "state \<Rightarrow> vec3 \<Rightarrow> gridpos" where
  "getGridPosition s worldPos =
     (case worldPos of (wx, wy, wz) \<Rightarrow>
        (round (fl (wx / gridSize s)), round (fl (wy / gridSize s)),
         round (fl (wz / gridSize s))))"

definition gridToWorld :: "state \<Rightarrow> gridpos \<Rightarrow> vec3" where
  "gridToWorld s gridPos =
     (case gridPos of (gx, gy, gz) \<Rightarrow>
        (fl (fl (of_int gx * gridSize s) + fl (fl (seededRandom gx gy gz - 1 / 2) * 20)),
         fl (fl (of_int gy * gridSize s) + fl (fl (seededRandom gy gz gx - 1 / 2) * 20)),
         fl (fl (of_int gz * gridSize s) + fl (fl (seededRandom gz gx gy - 1 / 2) * 20))))"

definition shouldHaveAetheryte :: "state \<Rightarrow> gridpos \<Rightarrow> bool" where
  "shouldHaveAetheryte s gridPos =
     (case gridPos of (gx, gy, gz) \<Rightarrow> seededRandom gx gy gz < aetheryteChance s)"

definition isInViewFrustum :: "state \<Rightarrow> vec3 \<Rightarrow> bool" where
  "isInViewFrustum s worldPos = containsPoint (camera s) worldPos"

definition distanceTo :: "vec3 \<Rightarrow> vec3 \<Rightarrow> real" where
  "distanceTo a b =
     (case a of (ax, ay, az) \<Rightarrow> case b of (bx, by, bz) \<Rightarrow>
        sqrt ((ax - bx)\<^sup>2 + (ay - by)\<^sup>2 + (az - bz)\<^sup>2))"

subsection \<open>The generation loop\<close>

text \<open>
  The objects as they are once the caller has filled in their fields:
  \<open>createDistantStar key p\<close> is the star of \<^verbatim>\<open>createDistantStar(p)\<close> after the
  assignments of \<^verbatim>\<open>userData.gridKey\<close> and \<^verbatim>\<open>userData.originalPosition\<close> that follow
  both of its calls, and \<open>createAetheryte key worldPos\<close> is the group of
  \<^verbatim>\<open>createAetheryte()\<close> after the loop body has set its position, original position,
  drift, key and time.
\<close>

definition createDistantStar :: "gridpos \<Rightarrow> vec3 \<Rightarrow> object3d" where
  "createDistantStar key p =
     \<lparr>position = p, gridKey = key, originalPosition = Some p, drift = None, time = 0\<rparr>"

definition createAetheryte :: "gridpos \<Rightarrow> vec3 \<Rightarrow> object3d" where
  "createAetheryte key worldPos =
     (case key of (x, y, z) \<Rightarrow>
        \<lparr>position = worldPos, gridKey = key, originalPosition = Some worldPos,
         drift = Some (fl (fl (seededRandom (js_add x 1) y z - 1 / 2) * fl (5 / 1000)),
                       fl (fl (seededRandom x (js_add y 1) z - 1 / 2) * fl (5 / 1000)),
                       fl (fl (seededRandom x y (js_add z 1) - 1 / 2) * fl (5 / 1000))),
         time = 0\<rparr>)"

definition has_aetheryte :: "state \<Rightarrow> gridpos \<Rightarrow> bool" where
  "has_aetheryte s key = (key \<in> fst ` set (loadedAetherytes s))"

definition has_star :: "state \<Rightarrow> gridpos \<Rightarrow> bool" where
  "has_star s key = (key \<in> gridKey ` set (distantStars s))"

text \<open>\<^verbatim>\<open>findIndex\<close> followed by \<^verbatim>\<open>splice(index, 1)\<close>: the first match goes.\<close>

fun remove_first :: "('a \<Rightarrow> bool) \<Rightarrow> 'a list \<Rightarrow> 'a list" where
  "remove_first P [] = []"
| "remove_first P (x # xs) = (if P x then xs else x # remove_first P xs)"

text \<open>The body of the innermost loop, for the cell \<open>key = (x, y, z)\<close>.\<close>

definition generateCell :: "gridpos \<Rightarrow> state \<Rightarrow> state" where
  "generateCell key s =
     (if \<not> shouldHaveAetheryte s key then s
      else
        let worldPos = gridToWorld s key;
            distance = distanceTo (cam_position (camera s)) worldPos
        in
          if distance > renderDistance s then s
          else if \<not> isInViewFrustum s worldPos then s
          else if distance < detailDistance s then
            (if \<not> has_aetheryte s key then
               s\<lparr>loadedAetherytes :=
                    AList.update key (createAetheryte key worldPos) (loadedAetherytes s),
                  distantStars := remove_first (\<lambda>st. gridKey st = key) (distantStars s)\<rparr>
             else s)
          else
            (if \<not> has_aetheryte s key \<and> \<not> has_star s key then
               s\<lparr>distantStars := distantStars s @ [createDistantStar key worldPos]\<rparr>
             else s))"

text \<open>
  \<^verbatim>\<open>for (let v = lo; v <= hi; v++) body\<close> on doubles. The counter may stop advancing,
  so the loop is a partial function: \<open>None\<close> is a loop that never exits.
\<close>

partial_function (option) for_loop ::
  "int \<Rightarrow> int \<Rightarrow> (int \<Rightarrow> 'a \<Rightarrow> 'a option) \<Rightarrow> 'a \<Rightarrow> 'a option" where
  "for_loop v hi body s =
     (if v \<le> hi
      then Option.bind (body v s) (\<lambda>s'. for_loop (js_add v 1) hi body s')
      else Some s)"

definition generate :: "gridpos \<Rightarrow> int \<Rightarrow> state \<Rightarrow> state option" where
  "generate camGridPos checkRadius s =
     (case camGridPos of (cx, cy, cz) \<Rightarrow>
        for_loop (js_sub cx checkRadius) (js_add cx checkRadius)
          (\<lambda>x. for_loop (js_sub cy checkRadius) (js_add cy checkRadius)
            (\<lambda>y. for_loop (js_sub cz checkRadius) (js_add cz checkRadius)
              (\<lambda>z s'. Some (generateCell (x, y, z) s')))) s)"

subsection \<open>The sweep\<close>

text \<open>The body of the loop over \<^verbatim>\<open>loadedAetherytes.entries()\<close>.\<close>

definition cleanupAetheryte :: "gridpos \<times> object3d \<Rightarrow> state \<Rightarrow> state" where
  "cleanupAetheryte e s =
     (case e of (key, aetheryte) \<Rightarrow>
        (case originalPosition aetheryte of
           None \<Rightarrow> s
         | Some p \<Rightarrow>
             let distance = distanceTo (cam_position (camera s)) p in
             if distance > renderDistance s * (12 / 10) then
               s\<lparr>loadedAetherytes := AList.delete key (loadedAetherytes s)\<rparr>
             else if distance > detailDistance s * (12 / 10) then
               s\<lparr>loadedAetherytes := AList.delete key (loadedAetherytes s),
                 distantStars := distantStars s @ [createDistantStar key p]\<rparr>
             else s))"

text \<open>The predicate of \<^verbatim>\<open>distantStars.filter\<close>.\<close>

definition keepStar :: "state \<Rightarrow> object3d \<Rightarrow> bool" where
  "keepStar s star =
     (case originalPosition star of
        None \<Rightarrow> True
      | Some p \<Rightarrow>
          \<not> distanceTo (cam_position (camera s)) p > renderDistance s * (12 / 10))"

definition cleanupDistantObjects :: "gridpos \<Rightarrow> int \<Rightarrow> state \<Rightarrow> state" where
  "cleanupDistantObjects camGridPos checkRadius s =
     (let s1 = fold cleanupAetheryte (loadedAetherytes s) s
      in s1\<lparr>distantStars := filter (keepStar s1) (distantStars s1)\<rparr>)"

subsection \<open>The tick\<close>

definition updateProceduralAetherytes :: "state \<Rightarrow> state option" where
  "updateProceduralAetherytes s =
     (let s1 = s\<lparr>frameCount := js_add (frameCount s) 1\<rparr> in
      if frameCount s1 mod 10 \<noteq> 0 then Some s1
      else
        let camGridPos = getGridPosition s1 (cam_position (camera s1));
            checkRadius = \<lceil>renderDistance s1 / gridSize s1\<rceil>
        in Option.bind (generate camGridPos checkRadius s1)
             (\<lambda>s2. Some (cleanupDistantObjects camGridPos checkRadius s2)))"

subsection \<open>The drift animation\<close>

text \<open>The part of the per-crystal callback in \<^verbatim>\<open>animate\<close> that moves the crystal.\<close>

definition oscillate :: "object3d \<Rightarrow> object3d" where
  "oscillate crystal =
     (case (drift crystal, originalPosition crystal) of
        (Some (dx, dy, dz), Some (ox, oy, oz)) \<Rightarrow>
          let t = time crystal + 5 / 100; offset = 8 in
          crystal\<lparr>time := t,
                  position := (ox + sin (t * dx * 100) * offset,
                               oy + sin (t * dy * 100 + 1) * offset,
                               oz + sin (t * dz * 100 + 2) * offset)\<rparr>
      | _ \<Rightarrow> crystal)"

definition animateAetherytes :: "state \<Rightarrow> state" where
  "animateAetherytes s =
     s\<lparr>loadedAetherytes := map (\<lambda>(key, crystal). (key, oscillate crystal)) (loadedAetherytes s)\<rparr>"

text \<open>
  One frame of \<^verbatim>\<open>animate\<close>: the movement code leaves the camera at \<open>cam\<close>, the
  populator runs, the crystals drift.
\<close>

definition animate :: "camera \<Rightarrow> state \<Rightarrow> state option" where
  "animate cam s =
     Option.bind (updateProceduralAetherytes (s\<lparr>camera := cam\<rparr>))
       (\<lambda>s'. Some (animateAetherytes s'))"

subsection \<open>Runs of the program\<close>

text \<open>
  The states the program can be in: the constructor's, then any interleaving of
  calls of \<^verbatim>\<open>updateProceduralAetherytes\<close> that return, camera movement and
  the drift of the loaded crystals. The movement and auto-pilot code touch the
  camera and none of the populator's fields; here a move may put the camera
  anywhere, with any frustum, which admits every run of the program and more (the
  program moves the camera in bounded steps).
\<close>

inductive reachable :: "state \<Rightarrow> bool" where
  start: "reachable (constructed fr)"
| tick: "reachable s \<Longrightarrow> updateProceduralAetherytes s = Some s' \<Longrightarrow> reachable s'"
| move: "reachable s \<Longrightarrow> reachable (s\<lparr>camera := cam\<rparr>)"
| crystals: "reachable s \<Longrightarrow> reachable (animateAetherytes s)"

text \<open>
  The two places that move the camera after \<^verbatim>\<open>init\<close>. \<^verbatim>\<open>updateMovement\<close> adds the
  velocity to the position (\<^verbatim>\<open>camera.position.add(this.velocity)\<close>), and
  \<^verbatim>\<open>updateAutoPilot\<close> moves each coordinate by \<^verbatim>\<open>(target - position) * 0.02\<close>.
\<close>

definition applyVelocity :: "vec3 \<Rightarrow> vec3 \<Rightarrow> vec3" where
  "applyVelocity velocity p =
     (case velocity of (vx, vy, vz) \<Rightarrow> case p of (px, py, pz) \<Rightarrow>
        (fl (px + vx), fl (py + vy), fl (pz + vz)))"

definition autoPilotStep :: "vec3 \<Rightarrow> vec3 \<Rightarrow> vec3" where
  "autoPilotStep target p =
     (case target of (tx, ty, tz) \<Rightarrow> case p of (px, py, pz) \<Rightarrow>
        (fl (px + fl (fl (tx - px) * fl (2 / 100))),
         fl (py + fl (fl (ty - py) * fl (2 / 100))),
         fl (pz + fl (fl (tz - pz) * fl (2 / 100)))))"

text \<open>
  The runs again, with the camera moved as the program moves it. Just before
  the velocity is added it has been clamped to the length \<^verbatim>\<open>maxSpeed = 1.5\<close>, so that
  with the rounding of the clamp each of its components is at most 2 in magnitude;
  the targets of the auto-pilot lie on a curve of radius 150 around the origin
  (\<open>targetY\<close> between \<open>-25\<close> and \<open>125\<close>). Turning changes the frustum only.
\<close>

inductive flown :: "state \<Rightarrow> bool" where
  start: "flown (constructed fr)"
| tick: "flown s \<Longrightarrow> updateProceduralAetherytes s = Some s' \<Longrightarrow> flown s'"
| crystals: "flown s \<Longrightarrow> flown (animateAetherytes s)"
| turn: "flown s \<Longrightarrow> flown (s\<lparr>camera := (camera s)\<lparr>containsPoint := fr\<rparr>\<rparr>)"
| manual:
    "flown s \<Longrightarrow> \<bar>vx\<bar> \<le> 2 \<Longrightarrow> \<bar>vy\<bar> \<le> 2 \<Longrightarrow> \<bar>vz\<bar> \<le> 2 \<Longrightarrow>
     flown (s\<lparr>camera :=
               \<lparr>cam_position = applyVelocity (vx, vy, vz) (cam_position (camera s)),
                containsPoint = fr\<rparr>\<rparr>)"
| autopilot:
    "flown s \<Longrightarrow> \<bar>tx\<bar> \<le> 150 \<Longrightarrow> \<bar>ty\<bar> \<le> 150 \<Longrightarrow> \<bar>tz\<bar> \<le> 150 \<Longrightarrow>
     flown (s\<lparr>camera :=
               \<lparr>cam_position = autoPilotStep (tx, ty, tz) (cam_position (camera s)),
                containsPoint = fr\<rparr>\<rparr>)"

text \<open>
  Each coordinate of a triple is at most \<open>b\<close> in magnitude. At \<open>2 ^ 54\<close> the doubles
  are 4 apart and adding a velocity changes nothing any more: the camera stays
  \<open>coords_within (2 ^ 54)\<close>.
\<close>

definition coords_within :: "real \<Rightarrow> vec3 \<Rightarrow> bool" where
  "coords_within b v \<longleftrightarrow> (case v of (x, y, z) \<Rightarrow> \<bar>x\<bar> \<le> b \<and> \<bar>y\<bar> \<le> b \<and> \<bar>z\<bar> \<le> b)"

text \<open>The same for a cell key, and the range of keys on which the jitter is studied.\<close>

definition keys_within :: "int \<Rightarrow> gridpos \<Rightarrow> bool" where
  "keys_within b g \<longleftrightarrow> (case g of (x, y, z) \<Rightarrow> \<bar>x\<bar> \<le> b \<and> \<bar>y\<bar> \<le> b \<and> \<bar>z\<bar> \<le> b)"

text \<open>
  The jitter term \<^verbatim>\<open>(r - 0.5) * 20\<close> of \<^verbatim>\<open>gridToWorld\<close> for the hash value \<open>r\<close>, the
  three jitter terms of a cell, and the offset of the jittered position of a cell
  from its lattice point.
\<close>

definition jitter :: "real \<Rightarrow> real" where
  "jitter r = fl (fl (r - 1 / 2) * 20)"


definition latticeOffset :: "state \<Rightarrow> gridpos \<Rightarrow> vec3" where
  "latticeOffset s g =
     (case g of (gx, gy, gz) \<Rightarrow> case gridToWorld s g of (wx, wy, wz) \<Rightarrow>
        (wx - of_int gx * gridSize s, wy - of_int gy * gridSize s, wz - of_int gz * gridSize s))"

text \<open>The generation settings are the constructor's.\<close>

definition configured :: "state \<Rightarrow> bool" where
  "configured s \<longleftrightarrow>
     renderDistance s = 300 \<and> detailDistance s = 150 \<and> gridSize s = 100 \<and>
     aetheryteChance s = fl (3 / 10)"

text \<open>
  Keys are unique in the map (as in any \<^verbatim>\<open>Map\<close>) and among the stars, and no key
  is in both.
\<close>

definition exclusive :: "state \<Rightarrow> bool" where
  "exclusive s \<longleftrightarrow>
     distinct (map fst (loadedAetherytes s)) \<and>
     distinct (map gridKey (distantStars s)) \<and>
     fst ` set (loadedAetherytes s) \<inter> gridKey ` set (distantStars s) = {}"



text \<open>
  The cells the three nested loops visit, in order, when the counters are exact;
  they are exact when every counter value stays below \<open>2 ^ 53\<close> in magnitude.
\<close>

definition candidateCells :: "gridpos \<Rightarrow> int \<Rightarrow> gridpos list" where
  "candidateCells camGridPos checkRadius =
     (case camGridPos of (cx, cy, cz) \<Rightarrow>
        concat (map (\<lambda>x.
          concat (map (\<lambda>y.
            map (\<lambda>z. (x, y, z)) [cz - checkRadius..cz + checkRadius])
            [cy - checkRadius..cy + checkRadius]))
          [cx - checkRadius..cx + checkRadius]))"

definition exact_counters :: "gridpos \<Rightarrow> int \<Rightarrow> bool" where
  "exact_counters camGridPos checkRadius \<longleftrightarrow>
     (case camGridPos of (cx, cy, cz) \<Rightarrow>
        \<bar>cx\<bar> + \<bar>checkRadius\<bar> + 1 < 2 ^ 53 \<and>
        \<bar>cy\<bar> + \<bar>checkRadius\<bar> + 1 < 2 ^ 53 \<and>
        \<bar>cz\<bar> + \<bar>checkRadius\<bar> + 1 < 2 ^ 53)"

text \<open>
  The two distance tests of the sweep, on the stored original position of an
  object; an object without one passes neither.
\<close>

definition tooFar :: "state \<Rightarrow> object3d \<Rightarrow> bool" where
  "tooFar s obj =
     (case originalPosition obj of
        None \<Rightarrow> False
      | Some p \<Rightarrow> distanceTo (cam_position (camera s)) p > renderDistance s * (12 / 10))"

definition beyondDetail :: "state \<Rightarrow> object3d \<Rightarrow> bool" where
  "beyondDetail s obj =
     (case originalPosition obj of
        None \<Rightarrow> False
      | Some p \<Rightarrow> distanceTo (cam_position (camera s)) p > detailDistance s * (12 / 10))"

text \<open>
  What the sweep does with a map entry: it leaves the map when either test holds,
  and is replaced by a stand-in star when only the detail test does.
\<close>

definition leaves :: "state \<Rightarrow> gridpos \<times> object3d \<Rightarrow> bool" where
  "leaves s e \<longleftrightarrow> tooFar s (snd e) \<or> beyondDetail s (snd e)"

definition downgraded :: "state \<Rightarrow> gridpos \<times> object3d \<Rightarrow> bool" where
  "downgraded s e \<longleftrightarrow> \<not> tooFar s (snd e) \<and> beyondDetail s (snd e)"

definition standIn :: "gridpos \<times> object3d \<Rightarrow> object3d" where
  "standIn e = createDistantStar (fst e) (the (originalPosition (snd e)))"

text \<open>
  Example views. \<open>view_cell k\<close> is a frustum test that holds exactly for the points
  whose nearest lattice point (at spacing 100) is \<open>k\<close>.
\<close>

definition view_cell :: "gridpos \<Rightarrow> vec3 \<Rightarrow> bool" where
  "view_cell k p =
     (case p of (x, y, z) \<Rightarrow> (round (x / 100), round (y / 100), round (z / 100)) = k)"

text \<open>
  The state after the first ten calls of the populator when the camera has stayed
  at its initial position and sees exactly cell \<open>(0, 0, 0)\<close>: the crystal of that
  cell is loaded, at the cell's jittered position \<open>(-10, -10, -10)\<close>.
\<close>

definition home_crystal :: object3d where
  "home_crystal = createAetheryte (0, 0, 0) (- 10, - 10, - 10)"

definition home_loaded :: state where
  "home_loaded =
     (constructed (view_cell (0, 0, 0)))
       \<lparr>frameCount := 10, loadedAetherytes := [((0, 0, 0), home_crystal)]\<rparr>"

text \<open>The stars of a cell, and the map entry of a cell.\<close>

definition stars_at :: "state \<Rightarrow> gridpos \<Rightarrow> object3d list" where
  "stars_at s key = filter (\<lambda>st. gridKey st = key) (distantStars s)"

definition aetheryte_at :: "state \<Rightarrow> gridpos \<Rightarrow> object3d option" where
  "aetheryte_at s key = map_of (loadedAetherytes s) key"

text \<open>
  A flight along the x axis. In \<open>turned_away\<close>, 149 calls in, the camera sits at
  \<open>(180, -10, -10)\<close>, 190 units from the crystal, which is behind it: the frustum
  holds the points of the distant cell \<open>(9, 0, 0)\<close> only. \<open>star_left\<close> is the state
  after the next call, in which the star \<open>home_star\<close> has taken the crystal's place.
  In \<open>far_view\<close>, 120 calls later, the camera has moved on to \<open>(351, -10, -10)\<close>,
  361 units from the star.
\<close>

definition home_star :: object3d where
  "home_star = createDistantStar (0, 0, 0) (- 10, - 10, - 10)"

definition turned_away :: state where
  "turned_away =
     home_loaded\<lparr>frameCount := 149,
       camera := \<lparr>cam_position = (180, - 10, - 10), containsPoint = view_cell (9, 0, 0)\<rparr>\<rparr>"

definition star_left :: state where
  "star_left =
     turned_away\<lparr>frameCount := 150, loadedAetherytes := [], distantStars := [home_star]\<rparr>"

definition far_view :: state where
  "far_view =
     star_left\<lparr>frameCount := 270,
       camera := \<lparr>cam_position = (351, - 10, - 10), containsPoint = view_cell (9, 0, 0)\<rparr>\<rparr>"

text \<open>The tests of the loop body read the camera and the settings only.\<close>

definition same_view :: "state \<Rightarrow> state \<Rightarrow> bool" where
  "same_view u s \<longleftrightarrow>
     camera u = camera s \<and> renderDistance u = renderDistance s \<and>
     detailDistance u = detailDistance s \<and> gridSize u = gridSize s \<and>
     aetheryteChance u = aetheryteChance s"

text \<open>
  \<open>far_due\<close> is \<open>far_view\<close> nine throttled calls later, when the next call sweeps;
  \<open>far_swept\<close> is the state after that call, with the star gone.
\<close>

definition far_due :: state where
  "far_due = far_view\<lparr>frameCount := 279\<rparr>"

definition far_swept :: state where
  "far_swept = far_view\<lparr>frameCount := 280, distantStars := []\<rparr>"

text \<open>
  Nine calls after the start, with the camera at its initial position and turned
  so that the frustum holds the points of the distant cell \<open>(9, 0, 0)\<close> only.
\<close>

definition looking_away :: state where
  "looking_away = (constructed (view_cell (9, 0, 0)))\<lparr>frameCount := 9\<rparr>"

text \<open>
  Nine calls after the start, when the first frame has moved the camera by the
  velocity \<open>(2, 0, 0)\<close>.
\<close>

definition nudged :: state where
  "nudged =
     (constructed (view_cell (0, 0, 0)))
       \<lparr>camera := \<lparr>cam_position = (2, 5, 50), containsPoint = view_cell (0, 0, 0)\<rparr>,
        frameCount := 9\<rparr>"

text \<open>
  The values the tick computes first: the state after \<^verbatim>\<open>this.frameCount++\<close>, the
  locals \<^verbatim>\<open>camGridPos\<close> and \<^verbatim>\<open>checkRadius\<close>, and the \<^verbatim>\<open>distance\<close> of a cell.
\<close>

definition counted :: "state \<Rightarrow> state" where
  "counted s = s\<lparr>frameCount := js_add (frameCount s) 1\<rparr>"

definition camGridPos :: "state \<Rightarrow> gridpos" where
  "camGridPos s = getGridPosition s (cam_position (camera s))"

definition checkRadius :: "state \<Rightarrow> int" where
  "checkRadius s = \<lceil>renderDistance s / gridSize s\<rceil>"

definition cellDistance :: "state \<Rightarrow> gridpos \<Rightarrow> real" where
  "cellDistance s key = distanceTo (cam_position (camera s)) (gridToWorld s key)"

section \<open>Properties\<close>

subsection \<open>Rounding\<close>

lemma rne_of_int: "rne (of_int n) = n"
  by (simp add: rne_def)

lemma rne_numeral: "rne (numeral n) = numeral n"
  using rne_of_int [of "numeral n"] by simp

lemma rne_bounds: "of_int (rne y) - 1 / 2 \<le> y \<and> y \<le> of_int (rne y) + 1 / 2"
  unfolding rne_def Let_def by (auto; linarith)

lemma rne_nearest: "\<bar>y - of_int m\<bar> < 1 / 2 \<Longrightarrow> rne y = m"
  using rne_bounds [of y] by linarith

lemma rne_tie: "rne (of_int n + 1 / 2) = (if even n then n else n + 1)"
proof -
  have "\<lfloor>of_int n + 1 / 2 :: real\<rfloor> = n" by linarith
  then show ?thesis by (simp add: rne_def)
qed

lemma rne_mono: "x \<le> y \<Longrightarrow> rne x \<le> rne y"
proof (cases "\<lfloor>x\<rfloor> = \<lfloor>y\<rfloor>")
  case True
  assume "x \<le> y"
  then show ?thesis unfolding rne_def Let_def True by auto
next
  case False
  assume "x \<le> y"
  with False have "\<lfloor>x\<rfloor> + 1 \<le> \<lfloor>y\<rfloor>"
    using floor_mono [of x y] by linarith
  moreover have "rne x \<le> \<lfloor>x\<rfloor> + 1" "\<lfloor>y\<rfloor> \<le> rne y"
    by (simp_all add: rne_def Let_def)
  ultimately show ?thesis by linarith
qed

lemma rne_neg: "rne (- y) = - rne y"
proof (cases "y \<in> \<int>")
  case True
  then obtain n where "y = of_int n" by (auto elim: Ints_cases)
  then have "- y = of_int (- n)" by simp
  then show ?thesis unfolding \<open>y = of_int n\<close> by (simp only: rne_of_int)
next
  case False
  have ne: "y \<noteq> of_int \<lfloor>y\<rfloor>"
  proof
    assume a: "y = of_int \<lfloor>y\<rfloor>"
    have "y \<in> \<int>" by (subst a) (rule Ints_of_int)
    with False show False by simp
  qed
  then have f: "\<lfloor>- y\<rfloor> = - \<lfloor>y\<rfloor> - 1"
    by (simp add: floor_minus ceiling_altdef)
  show ?thesis
    using ne unfolding rne_def Let_def f by (auto; linarith?)
qed

lemma floor_log2_powi:
  assumes "0 < x"
  shows "\<lfloor>log 2 x\<rfloor> = k \<longleftrightarrow> 2 powi k \<le> x \<and> x < 2 powi (k + 1)"
proof -
  have "2 powr real_of_int k = (2::real) powi k" "2 powr real_of_int (k + 1) = (2::real) powi (k + 1)"
    by (rule powr_real_of_int'; simp)+
  with floor_log_eq_powr_iff [of x 2 k] assms show ?thesis by simp
qed

lemma floor_log2_bounds:
  assumes "0 < x"
  shows "2 powi \<lfloor>log 2 x\<rfloor> \<le> x" "x < 2 powi (\<lfloor>log 2 x\<rfloor> + 1)"
  using floor_log2_powi [OF assms, of "\<lfloor>log 2 x\<rfloor>"] by simp_all

lemma fl_0: "fl 0 = 0"
  by (simp add: fl_def)

lemma fl_neg: "fl (- x) = - fl x"
  by (simp add: fl_def Let_def rne_neg)

lemma fl_at:
  assumes "2 powi e \<le> \<bar>x\<bar>" "\<bar>x\<bar> < 2 powi (e + 1)" "- 1022 \<le> e"
  shows "fl x = of_int (rne (x / 2 powi (e - 52))) * 2 powi (e - 52)"
proof -
  have "0 < (2::real) powi e" by simp
  with assms(1) have "0 < \<bar>x\<bar>" by linarith
  then have x: "x \<noteq> 0" "0 < \<bar>x\<bar>" by auto
  have "\<lfloor>log 2 \<bar>x\<bar>\<rfloor> = e"
    using assms(1,2) by (simp add: floor_log2_powi [OF x(2)])
  with assms(3) have "max \<lfloor>log 2 \<bar>x\<bar>\<rfloor> (- 1022) = e" by simp
  then show ?thesis
    using x(1) by (simp add: fl_def Let_def)
qed

lemma fl_eqI:
  assumes "2 powi e \<le> \<bar>x\<bar>" "\<bar>x\<bar> < 2 powi (e + 1)" "- 1022 \<le> e"
    and "\<bar>x / 2 powi (e - 52) - of_int m\<bar> < 1 / 2"
  shows "fl x = of_int m * 2 powi (e - 52)"
  unfolding fl_at [OF assms(1-3)] rne_nearest [OF assms(4)] ..

lemma fl_pos_bounds:
  assumes "0 < x"
  defines "e \<equiv> max \<lfloor>log 2 x\<rfloor> (- 1022)"
  shows "fl x = of_int (rne (x / 2 powi (e - 52))) * 2 powi (e - 52)"
    and "0 \<le> fl x" and "fl x \<le> 2 powi (e + 1)"
    and "2 powi e \<le> x \<Longrightarrow> 2 powi e \<le> fl x"
proof -
  let ?u = "(2::real) powi (e - 52)"
  have u: "0 < ?u" by simp
  show eq: "fl x = of_int (rne (x / ?u)) * ?u"
    using assms(1) by (simp add: fl_def Let_def e_def)
  have up: "x < 2 powi (e + 1)"
  proof -
    have "x < 2 powi (\<lfloor>log 2 x\<rfloor> + 1)" by (rule floor_log2_bounds [OF assms(1)])
    also have "\<dots> \<le> 2 powi (e + 1)"
      by (rule power_int_increasing) (simp_all add: e_def)
    finally show ?thesis .
  qed
  have split: "(2::real) powi (e + 1) = 2 ^ 53 * ?u" "(2::real) powi e = 2 ^ 52 * ?u"
  proof -
    have "(2::real) powi (e + 1) = 2 powi (53 + (e - 52))"
      by (rule arg_cong [where f = "\<lambda>n. 2 powi n"]) simp
    also have "\<dots> = 2 powi 53 * ?u" by (subst power_int_add) simp_all
    finally show "(2::real) powi (e + 1) = 2 ^ 53 * ?u" by simp
    have "(2::real) powi e = 2 powi (52 + (e - 52))"
      by (rule arg_cong [where f = "\<lambda>n. 2 powi n"]) simp
    also have "\<dots> = 2 powi 52 * ?u" by (subst power_int_add) simp_all
    finally show "(2::real) powi e = 2 ^ 52 * ?u" by simp
  qed
  have "0 \<le> x / ?u" using assms(1) by simp
  then have "rne 0 \<le> rne (x / ?u)" by (rule rne_mono)
  then have "0 \<le> rne (x / ?u)" using rne_of_int [of 0] by simp
  then show "0 \<le> fl x" unfolding eq by simp
  have "x / ?u \<le> of_int (2 ^ 53)"
    using up u unfolding split by (simp add: field_simps)
  then have "rne (x / ?u) \<le> rne (of_int (2 ^ 53))" by (rule rne_mono)
  then have "real_of_int (rne (x / ?u)) \<le> real_of_int (rne (of_int (2 ^ 53)))"
    by (simp only: of_int_le_iff)
  then have "real_of_int (rne (x / ?u)) \<le> 2 ^ 53" by (simp add: rne_numeral)
  then show "fl x \<le> 2 powi (e + 1)"
    unfolding eq split using u by simp
  assume "2 powi e \<le> x"
  then have "of_int (2 ^ 52) \<le> x / ?u"
    using u unfolding split by (simp add: field_simps)
  then have "rne (of_int (2 ^ 52)) \<le> rne (x / ?u)" by (rule rne_mono)
  then have "real_of_int (rne (of_int (2 ^ 52))) \<le> real_of_int (rne (x / ?u))"
    by (simp only: of_int_le_iff)
  then have "2 ^ 52 \<le> real_of_int (rne (x / ?u))" by (simp add: rne_numeral)
  then show "2 powi e \<le> fl x"
    unfolding eq split using u by simp
qed

lemma fl_mono_pos:
  assumes "0 < x" "x \<le> y"
  shows "fl x \<le> fl y"
proof -
  define ex where "ex = max \<lfloor>log 2 x\<rfloor> (- 1022)"
  define ey where "ey = max \<lfloor>log 2 y\<rfloor> (- 1022)"
  have y: "0 < y" using assms by simp
  have "log 2 x \<le> log 2 y" using assms by simp
  then have le: "ex \<le> ey"
    unfolding ex_def ey_def using floor_mono [of "log 2 x" "log 2 y"] by linarith
  show ?thesis
  proof (cases "ex = ey")
    case True
    have "x / 2 powi (ex - 52) \<le> y / 2 powi (ex - 52)"
      using assms(2) by (simp add: divide_right_mono)
    then have "rne (x / 2 powi (ex - 52)) \<le> rne (y / 2 powi (ex - 52))" by (rule rne_mono)
    then show ?thesis
      unfolding fl_pos_bounds(1) [OF assms(1)] fl_pos_bounds(1) [OF y]
        ex_def [symmetric] ey_def [symmetric] True [symmetric]
      by (simp add: mult_right_mono)
  next
    case False
    with le have lt: "ex + 1 \<le> ey" by simp
    then have "- 1022 < ey" unfolding ex_def by linarith
    then have "ey = \<lfloor>log 2 y\<rfloor>" unfolding ey_def by linarith
    then have "2 powi ey \<le> y" using floor_log2_bounds(1) [OF y] by simp
    then have "2 powi ey \<le> fl y"
      unfolding ey_def by (rule fl_pos_bounds(4) [OF y])
    moreover have "fl x \<le> 2 powi (ex + 1)"
      unfolding ex_def by (rule fl_pos_bounds(3) [OF assms(1)])
    moreover have "(2::real) powi (ex + 1) \<le> 2 powi ey"
      using lt by (intro power_int_increasing) simp_all
    ultimately show ?thesis by linarith
  qed
qed

lemma fl_nonneg: "0 \<le> x \<Longrightarrow> 0 \<le> fl x"
  using fl_pos_bounds(2) [of x] by (cases "x = 0") (simp_all add: fl_0)

lemma fl_nonpos: "x \<le> 0 \<Longrightarrow> fl x \<le> 0"
  using fl_nonneg [of "- x"] by (simp add: fl_neg)

lemma fl_mono:
  assumes "x \<le> y"
  shows "fl x \<le> fl y"
proof -
  consider "0 < x" | "x \<le> 0" "0 \<le> y" | "y < 0" by linarith
  then show ?thesis
  proof cases
    case 1
    then show ?thesis using assms by (rule fl_mono_pos)
  next
    case 2
    then show ?thesis using fl_nonpos [of x] fl_nonneg [of y] by linarith
  next
    case 3
    then have "fl (- y) \<le> fl (- x)" using assms by (intro fl_mono_pos) simp_all
    then show ?thesis by (simp add: fl_neg)
  qed
qed

lemma fl_exact:
  assumes "\<bar>m\<bar> < 2 ^ 53" "- 1074 \<le> k"
  shows "fl (of_int m * 2 powi k) = of_int m * 2 powi k"
proof (cases "m = 0")
  case True
  then show ?thesis by (simp add: fl_0)
next
  case False
  let ?x = "real_of_int m * 2 powi k"
  define e where "e = max \<lfloor>log 2 \<bar>?x\<bar>\<rfloor> (- 1022)"
  have x: "?x \<noteq> 0" "0 < \<bar>?x\<bar>" using False by simp_all
  have "\<bar>?x\<bar> = real_of_int \<bar>m\<bar> * 2 powi k" by (simp add: abs_mult)
  also have "\<dots> < 2 ^ 53 * 2 powi k"
  proof -
    have "real_of_int \<bar>m\<bar> < real_of_int (2 ^ 53)"
      using assms(1) by (simp only: of_int_less_iff)
    then show ?thesis by (intro mult_strict_right_mono) simp_all
  qed
  also have "\<dots> = 2 powi (k + 53)"
    by (subst power_int_add) simp_all
  finally have "\<bar>?x\<bar> < 2 powi (k + 53)" .
  moreover have "2 powi \<lfloor>log 2 \<bar>?x\<bar>\<rfloor> \<le> \<bar>?x\<bar>" by (rule floor_log2_bounds [OF x(2)])
  ultimately have "(2::real) powi \<lfloor>log 2 \<bar>?x\<bar>\<rfloor> < 2 powi (k + 53)" by linarith
  then have "\<lfloor>log 2 \<bar>?x\<bar>\<rfloor> < k + 53"
    using power_int_increasing [of "k + 53" "\<lfloor>log 2 \<bar>?x\<bar>\<rfloor>" "2::real"] by linarith
  with assms(2) have d: "0 \<le> k - (e - 52)" unfolding e_def by linarith
  define j where "j = nat (k - (e - 52))"
  have "(2::real) powi k = 2 powi (int j + (e - 52))" using d by (simp add: j_def)
  also have "\<dots> = 2 ^ j * 2 powi (e - 52)" by (subst power_int_add) simp_all
  finally have k: "(2::real) powi k = 2 ^ j * 2 powi (e - 52)" .
  have "?x / 2 powi (e - 52) = of_int (m * 2 ^ j)"
    unfolding k by simp
  then have "rne (?x / 2 powi (e - 52)) = m * 2 ^ j" by (simp only: rne_of_int)
  then show ?thesis
    using x(1) unfolding fl_def Let_def e_def [symmetric]
    by (simp add: k)
qed

lemma fl_of_int: "\<bar>n\<bar> < 2 ^ 53 \<Longrightarrow> fl (of_int n) = of_int n"
  using fl_exact [of n 0] by simp

lemma fl_numeral: "(numeral n :: int) < 2 ^ 53 \<Longrightarrow> fl (numeral n) = numeral n"
  using fl_of_int [of "numeral n"] by simp

lemma fl_1: "fl 1 = 1"
  using fl_of_int [of 1] by simp

lemma fl_half: "fl (1 / 2) = 1 / 2"
  using fl_exact [of 1 "- 1"] by simp

lemma fl_quarters: "\<bar>n\<bar> < 2 ^ 53 \<Longrightarrow> fl (of_int n / 4) = of_int n / 4"
  using fl_exact [of n "- 2"] by simp

lemma fl_between:
  assumes "of_int a / 4 \<le> y" "y \<le> of_int b / 4" "\<bar>a\<bar> < 2 ^ 53" "\<bar>b\<bar> < 2 ^ 53"
  shows "of_int a / 4 \<le> fl y" "fl y \<le> of_int b / 4"
  using fl_mono [OF assms(1)] fl_mono [OF assms(2)] fl_quarters [OF assms(3)] fl_quarters [OF assms(4)]
  by simp_all

lemma round_fl:
  assumes "of_int a / 4 \<le> y" "y \<le> of_int b / 4" "\<bar>a\<bar> < 2 ^ 53" "\<bar>b\<bar> < 2 ^ 53"
    and "4 * n - 2 \<le> a" "b \<le> 4 * n + 1"
  shows "round (fl y) = n"
proof -
  have "real_of_int (4 * n - 2) \<le> of_int a" "real_of_int b \<le> of_int (4 * n + 1)"
    using assms(5,6) by (simp_all only: of_int_le_iff)
  with fl_between [OF assms(1-4)]
  have "of_int n - 1 / 2 \<le> fl y" "fl y < of_int n + 1 / 2" by simp_all
  then show ?thesis unfolding round_def by linarith
qed

lemma fl_tie_limit: "fl (2 ^ 54 + 2) = 2 ^ 54"
proof -
  have "fl (2 ^ 54 + 2) = of_int (rne ((2 ^ 54 + 2) / 2 powi (54 - 52))) * 2 powi (54 - 52)"
    by (rule fl_at) simp_all
  also have "(2 ^ 54 + 2) / 2 powi (54 - 52) = real_of_int (2 ^ 52) + 1 / 2"
    by simp
  also have "rne (real_of_int (2 ^ 52) + 1 / 2) = 2 ^ 52"
    unfolding rne_tie by simp
  finally show ?thesis by simp
qed

lemma fl_10: "fl 10 = 10" "fl (- 10) = - 10" "fl 20 = 20" "fl 100 = 100"
  by (simp_all add: fl_neg fl_numeral)

text \<open>
  The remaining arithmetic on the settings is exact for the constructor's values:
  \<^verbatim>\<open>renderDistance * 1.2\<close> is 360, \<^verbatim>\<open>detailDistance * 1.2\<close> is 180 and
  \<^verbatim>\<open>renderDistance / gridSize\<close> is 3 in binary64 as on the reals, although \<^verbatim>\<open>1.2\<close>
  is not a double. The thresholds of the sweep and the check radius are therefore
  written without rounding.
\<close>

lemma fl_literal: "fl (12 / 10) = 5404319552844595 / 2 ^ 52"
proof -
  have "fl (12 / 10) = of_int 5404319552844595 * 2 powi (0 - 52)"
    by (rule fl_eqI) simp_all
  then show ?thesis by (simp add: power_int_minus field_simps)
qed

lemma settings_exact:
  "fl (300 * fl (12 / 10)) = 360" "fl (150 * fl (12 / 10)) = 180" "fl (300 / 100) = 3"
proof -
  have "fl (300 * (5404319552844595 / 2 ^ 52)) = of_int 6333186975989760 * 2 powi (8 - 52)"
    by (rule fl_eqI) simp_all
  then show "fl (300 * fl (12 / 10)) = 360"
    unfolding fl_literal by (simp add: power_int_minus)
  have "fl (150 * (5404319552844595 / 2 ^ 52)) = of_int 6333186975989760 * 2 powi (7 - 52)"
    by (rule fl_eqI) simp_all
  then show "fl (150 * fl (12 / 10)) = 180"
    unfolding fl_literal by (simp add: power_int_minus)
  show "fl (300 / 100) = 3"
    by (simp add: fl_numeral)
qed

subsection \<open>Counters and loops\<close>

lemma expo_small: "n < 2 ^ 53 \<Longrightarrow> expo n = 0" by (subst expo.simps) simp
lemma dbl_nat_small: "n < 2 ^ 53 \<Longrightarrow> dbl_nat n = n"
  by (simp add: dbl_nat_def expo_small)
lemma dbl_exact: "\<bar>n\<bar> < 2 ^ 53 \<Longrightarrow> dbl n = n"
  unfolding dbl_def
  by (auto simp: dbl_nat_small nat_less_iff  abs_if split: if_splits)
lemma js_add_exact: "\<bar>a + b\<bar> < 2 ^ 53 \<Longrightarrow> js_add a b = a + b"
  by (simp add: js_add_def dbl_exact)
lemma js_sub_exact: "\<bar>a - b\<bar> < 2 ^ 53 \<Longrightarrow> js_sub a b = a - b"
  by (simp add: js_sub_def dbl_exact)

text \<open>The rounding of integer-valued doubles is the rounding \<open>fl\<close>, computed.\<close>

lemma expo_range:
  "0 < n \<Longrightarrow>
   (expo n = 0 \<and> n < 2 ^ 53) \<or> (0 < expo n \<and> 2 ^ (52 + expo n) \<le> n \<and> n < 2 ^ (53 + expo n))"
proof (induction n rule: expo.induct)
  case (1 n)
  show ?case
  proof (cases "n < 2 ^ 53")
    case True
    then show ?thesis by (simp add: expo_small)
  next
    case False
    define a where "a = n div 2"
    define k where "k = expo a"
    have h: "0 < n div 2" using False by simp
    have e: "expo n = Suc k"
      using False unfolding k_def a_def by (subst expo.simps) simp
    have n: "2 * a \<le> n" "n < 2 * a + 2"
      unfolding a_def by simp_all
    have big: "(2::nat) ^ 52 \<le> a"
      using False unfolding a_def by simp
    from "1.IH" [OF False h]
    have ih: "(k = 0 \<and> a < 2 ^ 53) \<or> (0 < k \<and> 2 ^ (52 + k) \<le> a \<and> a < 2 ^ (53 + k))"
      unfolding k_def a_def .
    have p: "(2::nat) ^ (52 + Suc k) = 2 * 2 ^ (52 + k)" "(2::nat) ^ (53 + Suc k) = 2 * 2 ^ (53 + k)"
      by (simp_all only: add_Suc_right power_Suc)
    have "2 ^ (52 + k) \<le> a \<and> a < 2 ^ (53 + k)"
      using ih big by auto
    then have "2 * 2 ^ (52 + k) \<le> n \<and> n < 2 * 2 ^ (53 + k)"
      using n by linarith
    then show ?thesis
      unfolding e p by simp
  qed
qed

lemma rne_div:
  fixes m r q :: nat
  assumes "r < q"
  shows "rne ((real m * real q + real r) / real q) =
     (if 2 * r < q then int m else if q < 2 * r then int m + 1
      else if even m then int m else int m + 1)"
proof -
  have q: "0 < real q" using assms by simp
  have eq: "(real m * real q + real r) / real q = real m + real r / real q"
    using q by (simp add: field_simps)
  have fr: "0 \<le> real r / real q" "real r / real q < 1" using assms q by simp_all
  then have f: "\<lfloor>real m + real r / real q\<rfloor> = int m" by linarith
  have d: "real m + real r / real q - of_int (int m) = real r / real q" by simp
  have c1: "real r / real q < 1 / 2 \<longleftrightarrow> 2 * r < q"
    using q by (simp add: field_simps) linarith
  have c2: "1 / 2 < real r / real q \<longleftrightarrow> q < 2 * r"
    using q by (simp add: field_simps) linarith
  show ?thesis
    unfolding eq rne_def Let_def f d c1 c2 by simp
qed

lemma dbl_nat_fl: "real (dbl_nat n) = fl (real n)"
proof (cases "n = 0")
  case True
  then show ?thesis by (simp add: dbl_nat_def fl_0)
next
  case False
  then have pos: "0 < n" by simp
  from expo_range [OF pos] show ?thesis
  proof
    assume a: "expo n = 0 \<and> n < 2 ^ 53"
    then have "fl (of_int (int n)) = of_int (int n)"
      by (intro fl_of_int) simp
    moreover have "dbl_nat n = n" using a by (simp add: dbl_nat_small)
    ultimately show ?thesis by simp
  next
    assume a: "0 < expo n \<and> 2 ^ (52 + expo n) \<le> n \<and> n < 2 ^ (53 + expo n)"
    define k where "k = expo n"
    define q where "q = (2::nat) ^ k"
    define m where "m = n div q"
    define r where "r = n mod q"
    have r: "r < q" unfolding r_def q_def by simp
    have "n = m * q + r" unfolding m_def r_def by simp
    then have n: "real n = real m * real q + real r"
      by (simp only: of_nat_add of_nat_mult)
    have b: "2 powi (52 + int k) \<le> \<bar>real n\<bar>" "\<bar>real n\<bar> < 2 powi (52 + int k + 1)"
    proof -
      have "real (2 ^ (52 + k)) \<le> real n" "real n < real (2 ^ (53 + k))"
        using a unfolding k_def by (simp_all only: of_nat_le_iff of_nat_less_iff)
      moreover have "(2::real) powi (52 + int k) = real (2 ^ (52 + k))"
        "(2::real) powi (52 + int k + 1) = real (2 ^ (53 + k))"
        by (simp_all add: power_int_add power_add)
      ultimately show "2 powi (52 + int k) \<le> \<bar>real n\<bar>" "\<bar>real n\<bar> < 2 powi (52 + int k + 1)"
        by simp_all
    qed
    have u: "(2::real) powi (52 + int k - 52) = real q"
      by (simp add: q_def)
    have "fl (real n) = of_int (rne (real n / 2 powi (52 + int k - 52))) * 2 powi (52 + int k - 52)"
      by (rule fl_at [OF b]) simp
    then have "fl (real n) = of_int (rne (real n / real q)) * real q"
      unfolding u .
    also have "rne (real n / real q) =
        (if 2 * r < q then int m else if q < 2 * r then int m + 1
         else if even m then int m else int m + 1)"
      unfolding n by (rule rne_div [OF r])
    finally have f: "fl (real n) =
        real_of_int (if 2 * r < q then int m else if q < 2 * r then int m + 1
         else if even m then int m else int m + 1) * real q" .
    have d: "dbl_nat n =
        (if 2 * r < q then m * q else if q < 2 * r then (m + 1) * q
         else if even m then m * q else (m + 1) * q)"
      unfolding dbl_nat_def Let_def k_def [symmetric] q_def [symmetric] m_def [symmetric]
        r_def [symmetric] ..
    show ?thesis
      unfolding f d by (simp add: algebra_simps)
  qed
qed

lemma dbl_fl: "real_of_int (dbl n) = fl (of_int n)"
proof (cases "n < 0")
  case True
  then have "real_of_int n = - real (nat (- n))" by simp
  then show ?thesis
    using True by (simp add: dbl_def dbl_nat_fl fl_neg)
next
  case False
  then have "real_of_int n = real (nat n)" by simp
  then show ?thesis
    using False by (simp add: dbl_def dbl_nat_fl)
qed

lemma for_loop_exact:
  "- (2 ^ 53) \<le> v \<Longrightarrow> hi + 1 < 2 ^ 53 \<Longrightarrow>
   for_loop v hi (\<lambda>i s. Some (f i s)) s = Some (fold f [v..hi] s)"
proof (induction "nat (hi + 1 - v)" arbitrary: v s)
  case 0
  then have "\<not> v \<le> hi" by simp
  then show ?case by (subst for_loop.simps) simp
next
  case (Suc n)
  then have le: "v \<le> hi" by linarith
  have inc: "js_add v 1 = v + 1"
    using Suc.prems le by (intro js_add_exact) (simp add: abs_if)
  have "n = nat (hi + 1 - (v + 1))" using Suc.hyps(2) by linarith
  from Suc.hyps(1)[OF this] Suc.prems
  have ih: "for_loop (v + 1) hi (\<lambda>i s. Some (f i s)) (f v s) = Some (fold f [v + 1..hi] (f v s))"
    by simp
  have up: "[v..hi] = v # [v + 1..hi]" using le by (simp add: upto_rec1)
  show ?case
    by (subst for_loop.simps) (simp add: le inc ih up)
qed

lemma for_loop_stuck:
  assumes "v \<le> hi" "js_add v 1 = v"
  shows "for_loop v hi body s = None"
proof (rule ccontr)
  assume "for_loop v hi body s \<noteq> None"
  then obtain t where t: "for_loop v hi body s = Some t" by auto
  have "\<not> (v \<le> hi \<and> js_add v 1 = v)"
    by (rule for_loop.raw_induct
          [where P = "\<lambda>v hi body s t. \<not> (v \<le> hi \<and> js_add v 1 = v)", OF _ t])
       (auto split: if_splits simp: bind_eq_Some_conv)
  with assms show False by blast
qed

lemma for_loop_invariant:
  assumes t: "for_loop v hi body s = Some t" and "P s"
    and step: "\<And>i s s'. P s \<Longrightarrow> body i s = Some s' \<Longrightarrow> P s'"
  shows "P t"
proof -
  have "body = body \<longrightarrow> P s \<longrightarrow> P t"
    by (rule for_loop.raw_induct
          [where P = "\<lambda>v hi b s t. b = body \<longrightarrow> P s \<longrightarrow> P t", OF _ t])
       (simp split: if_splits add: bind_eq_Some_conv, use step in blast)
  with assms show ?thesis by blast
qed

subsection \<open>Hash and grid\<close>

lemma seededRandom_range: "0 \<le> seededRandom x y z \<and> seededRandom x y z \<le> 1"
proof -
  have "0 \<le> fl (t - of_int \<lfloor>t\<rfloor>) \<and> fl (t - of_int \<lfloor>t\<rfloor>) \<le> 1" for t :: real
  proof -
    have "0 \<le> t - of_int \<lfloor>t\<rfloor>" "t - of_int \<lfloor>t\<rfloor> \<le> 1" by linarith+
    from fl_mono [OF this(1)] fl_mono [OF this(2)] show ?thesis
      by (simp add: fl_0 fl_1)
  qed
  then show ?thesis
    unfolding seededRandom_def Let_def by blast
qed

lemma seededRandom_origin: "seededRandom 0 0 0 = 0"
  by (simp add: seededRandom_def fl_0)

lemma jitter_range:
  assumes "0 \<le> r" "r \<le> 1"
  shows "- 10 \<le> jitter r" "jitter r \<le> 10"
proof -
  have "- (1 / 2) \<le> r - 1 / 2" "r - 1 / 2 \<le> 1 / 2" using assms by simp_all
  from fl_mono [OF this(1)] fl_mono [OF this(2)]
  have "- (1 / 2) \<le> fl (r - 1 / 2)" "fl (r - 1 / 2) \<le> 1 / 2"
    by (simp_all add: fl_neg fl_half)
  then have "- 10 \<le> fl (r - 1 / 2) * 20" "fl (r - 1 / 2) * 20 \<le> 10" by simp_all
  from fl_mono [OF this(1)] fl_mono [OF this(2)]
  show "- 10 \<le> jitter r" "jitter r \<le> 10"
    by (simp_all add: jitter_def fl_10)
qed

lemma jitter_origin: "jitter 0 = - 10"
  by (simp add: jitter_def fl_neg fl_half fl_10)




lemma gridToWorld_jitter:
  "gridToWorld s (gx, gy, gz) =
     (fl (fl (of_int gx * gridSize s) + jitter (seededRandom gx gy gz)),
      fl (fl (of_int gy * gridSize s) + jitter (seededRandom gy gz gx)),
      fl (fl (of_int gz * gridSize s) + jitter (seededRandom gz gx gy)))"
  by (simp add: gridToWorld_def jitter_def)

lemma fours_exact: "\<bar>n\<bar> < 2 ^ 53 \<Longrightarrow> fl (of_int n * 4) = of_int n * 4"
  using fl_exact [of n 2] by simp

lemma lattice_exact:
  assumes "\<bar>g\<bar> \<le> 2 ^ 48"
  shows "fl (of_int g * 100) = of_int g * 100"
proof -
  have b: "\<bar>25 * g\<bar> < 2 ^ 53" using assms by (simp add: abs_mult)
  have e: "real_of_int (25 * g) * 4 = of_int g * 100" by simp
  from fours_exact [OF b] show ?thesis unfolding e .
qed

lemma near_lattice:
  assumes "\<bar>g\<bar> \<le> 2 ^ 48" "- 10 \<le> j" "j \<le> 10"
  shows "\<bar>fl (of_int g * 100 + j) - of_int g * 100\<bar> \<le> 12"
proof -
  have b: "\<bar>25 * g - 3\<bar> < 2 ^ 53" "\<bar>25 * g + 3\<bar> < 2 ^ 53"
    using assms(1) by (simp_all add: abs_if split: if_splits)
  have e: "real_of_int (25 * g - 3) * 4 = of_int g * 100 - 12"
    "real_of_int (25 * g + 3) * 4 = of_int g * 100 + 12"
    by simp_all
  have "of_int g * 100 - 12 \<le> of_int g * 100 + j" "of_int g * 100 + j \<le> of_int g * 100 + 12"
    using assms(2,3) by simp_all
  from fl_mono [OF this(1)] fl_mono [OF this(2)]
  have "of_int g * 100 - 12 \<le> fl (of_int g * 100 + j)"
    "fl (of_int g * 100 + j) \<le> of_int g * 100 + 12"
    using fours_exact [OF b(1)] fours_exact [OF b(2)] unfolding e by simp_all
  then show ?thesis by simp
qed

lemma round_near_lattice:
  assumes "\<bar>g\<bar> \<le> 2 ^ 48" "\<bar>w - of_int g * 100\<bar> \<le> 12"
  shows "round (fl (w / 100)) = g" "round (w / 100) = g"
proof -
  show "round (fl (w / 100)) = g"
    using assms by (intro round_fl [of "4 * g - 1" _ "4 * g + 1"]) simp_all
  have "of_int g - 1 / 2 \<le> w / 100" "w / 100 < of_int g + 1 / 2"
    using assms(2) by simp_all
  then show "round (w / 100) = g" unfolding round_def by linarith
qed

lemma gridToWorld_near:
  assumes "gridSize s = 100" "keys_within (2 ^ 48) g"
  shows "coords_within 12 (latticeOffset s g)"
proof (cases g)
  case (fields gx gy gz)
  have n: "\<bar>fl (fl (of_int a * 100) + jitter (seededRandom x y z)) - of_int a * 100\<bar> \<le> 12"
    if "\<bar>a\<bar> \<le> 2 ^ 48" for a x y z
    unfolding lattice_exact [OF that]
    using seededRandom_range [of x y z] by (intro near_lattice [OF that] jitter_range) simp_all
  show ?thesis
    using assms(2) unfolding fields
    by (simp add: latticeOffset_def gridToWorld_jitter assms(1) coords_within_def keys_within_def n)
qed

lemma roundtrip_configured:
  assumes "gridSize s = 100" "keys_within (2 ^ 48) g"
  shows "getGridPosition s (gridToWorld s g) = g"
    and "view_cell k (gridToWorld s g) \<longleftrightarrow> g = k"
proof -
  obtain gx gy gz where g: "g = (gx, gy, gz)" by (cases g)
  obtain wx wy wz where w: "gridToWorld s (gx, gy, gz) = (wx, wy, wz)"
    by (cases "gridToWorld s (gx, gy, gz)")
  from gridToWorld_near [OF assms] assms(2)
  have "\<bar>wx - of_int gx * 100\<bar> \<le> 12 \<and> \<bar>gx\<bar> \<le> 2 ^ 48"
    "\<bar>wy - of_int gy * 100\<bar> \<le> 12 \<and> \<bar>gy\<bar> \<le> 2 ^ 48"
    "\<bar>wz - of_int gz * 100\<bar> \<le> 12 \<and> \<bar>gz\<bar> \<le> 2 ^ 48"
    by (simp_all add: latticeOffset_def coords_within_def keys_within_def g w assms(1))
  then have r: "round (fl (wx / 100)) = gx" "round (fl (wy / 100)) = gy" "round (fl (wz / 100)) = gz"
    "round (wx / 100) = gx" "round (wy / 100) = gy" "round (wz / 100) = gz"
    by (simp_all add: round_near_lattice)
  show "getGridPosition s (gridToWorld s g) = g"
    by (simp add: getGridPosition_def w g r assms(1))
  show "view_cell k (gridToWorld s g) \<longleftrightarrow> g = k"
    by (auto simp: view_cell_def w g r)
qed

lemma generateCell_frame:
  "frameCount (generateCell g s) = frameCount s"
  "camera (generateCell g s) = camera s"
  "renderDistance (generateCell g s) = renderDistance s"
  "detailDistance (generateCell g s) = detailDistance s"
  "gridSize (generateCell g s) = gridSize s"
  "aetheryteChance (generateCell g s) = aetheryteChance s"
  by (simp_all add: generateCell_def Let_def)

lemma cleanupAetheryte_frame:
  "frameCount (cleanupAetheryte e s) = frameCount s"
  "camera (cleanupAetheryte e s) = camera s"
  "renderDistance (cleanupAetheryte e s) = renderDistance s"
  "detailDistance (cleanupAetheryte e s) = detailDistance s"
  "gridSize (cleanupAetheryte e s) = gridSize s"
  "aetheryteChance (cleanupAetheryte e s) = aetheryteChance s"
  by (simp_all add: cleanupAetheryte_def Let_def split: prod.splits option.splits)

lemma fold_cleanupAetheryte_frame:
  "frameCount (fold cleanupAetheryte es s) = frameCount s"
  "camera (fold cleanupAetheryte es s) = camera s"
  "renderDistance (fold cleanupAetheryte es s) = renderDistance s"
  "detailDistance (fold cleanupAetheryte es s) = detailDistance s"
  "gridSize (fold cleanupAetheryte es s) = gridSize s"
  "aetheryteChance (fold cleanupAetheryte es s) = aetheryteChance s"
  by (induction es arbitrary: s; simp add: cleanupAetheryte_frame)+

lemma cleanupDistantObjects_frame:
  "frameCount (cleanupDistantObjects c r s) = frameCount s"
  "camera (cleanupDistantObjects c r s) = camera s"
  "renderDistance (cleanupDistantObjects c r s) = renderDistance s"
  "detailDistance (cleanupDistantObjects c r s) = detailDistance s"
  "gridSize (cleanupDistantObjects c r s) = gridSize s"
  "aetheryteChance (cleanupDistantObjects c r s) = aetheryteChance s"
  by (simp_all add: cleanupDistantObjects_def Let_def fold_cleanupAetheryte_frame)

lemma generate_invariant:
  assumes "generate c r s = Some t" "P s" "\<And>g s. P s \<Longrightarrow> P (generateCell g s)"
  shows "P t"
proof -
  obtain cx cy cz where c: "c = (cx, cy, cz)" by (cases c)
  have z: "for_loop lo hi (\<lambda>z s'. Some (generateCell (x, y, z) s')) u = Some u' \<Longrightarrow> P u \<Longrightarrow> P u'"
    for lo hi x y u u'
    by (erule for_loop_invariant) (auto intro: assms(3))
  have y: "for_loop lo hi (\<lambda>y. for_loop lo' hi' (\<lambda>z s'. Some (generateCell (x, y, z) s'))) u = Some u'
      \<Longrightarrow> P u \<Longrightarrow> P u'" for lo hi lo' hi' x u u'
    by (erule for_loop_invariant) (auto intro: z)
  show ?thesis
    using assms(1,2) unfolding generate_def c
    by simp (erule for_loop_invariant, auto intro: y)
qed

subsection \<open>What a tick leaves alone\<close>

lemma generate_frame:
  assumes "generate c r s = Some t"
  shows "frameCount t = frameCount s \<and> camera t = camera s \<and> renderDistance t = renderDistance s \<and>
         detailDistance t = detailDistance s \<and> gridSize t = gridSize s \<and>
         aetheryteChance t = aetheryteChance s"
  by (rule generate_invariant [OF assms]) (simp_all add: generateCell_frame)

lemma update_cases:
  assumes "updateProceduralAetherytes s = Some t"
  obtains (throttled) "js_add (frameCount s) 1 mod 10 \<noteq> 0" "t = s\<lparr>frameCount := js_add (frameCount s) 1\<rparr>"
  | (generated) s2 where "js_add (frameCount s) 1 mod 10 = 0"
      "generate (getGridPosition s (cam_position (camera s))) \<lceil>renderDistance s / gridSize s\<rceil>
         (s\<lparr>frameCount := js_add (frameCount s) 1\<rparr>) = Some s2"
      "t = cleanupDistantObjects (getGridPosition s (cam_position (camera s)))
             \<lceil>renderDistance s / gridSize s\<rceil> s2"
  using assms
  by (auto simp: updateProceduralAetherytes_def Let_def getGridPosition_def bind_eq_Some_conv
           split: if_splits)

lemma update_frame:
  assumes "updateProceduralAetherytes s = Some t"
  shows "camera t = camera s \<and> renderDistance t = renderDistance s \<and>
         detailDistance t = detailDistance s \<and> gridSize t = gridSize s \<and>
         aetheryteChance t = aetheryteChance s"
  using assms
proof (cases rule: update_cases)
  case throttled
  then show ?thesis by simp
next
  case (generated s2)
  from generate_frame [OF generated(2)] generated(3) show ?thesis
    by (simp add: cleanupDistantObjects_frame)
qed

lemma configured_constructed: "configured (constructed fr)"
  by (simp add: configured_def constructed_def)

lemma reachable_configured: "reachable s \<Longrightarrow> configured s"
proof (induction rule: reachable.induct)
  case (start fr)
  show ?case by (rule configured_constructed)
next
  case (tick s s')
  with update_frame [OF tick.hyps(2)] show ?case by (simp add: configured_def)
next
  case (move s cam)
  then show ?case by (simp add: configured_def)
next
  case (crystals s)
  then show ?case by (simp add: configured_def animateAetherytes_def)
qed

subsection \<open>Lists and maps\<close>

lemma update_fresh: "k \<notin> fst ` set al \<Longrightarrow> AList.update k v al = al @ [(k, v)]"
  by (induction al) auto

lemma remove_first_filter:
  "distinct (map f xs) \<Longrightarrow> remove_first (\<lambda>x. f x = k) xs = filter (\<lambda>x. f x \<noteq> k) xs"
proof (induction xs)
  case Nil
  show ?case by simp
next
  case (Cons x xs)
  show ?case
  proof (cases "f x = k")
    case True
    from Cons.prems have "f x \<notin> f ` set xs" by simp
    with True have "\<forall>y \<in> set xs. f y \<noteq> k" by blast
    then have "filter (\<lambda>x. f x \<noteq> k) xs = xs" by (simp add: filter_id_conv)
    with True show ?thesis by simp
  next
    case False
    with Cons show ?thesis by simp
  qed
qed


lemma delete_filter: "AList.delete k al = filter (\<lambda>e. fst e \<noteq> k) al"
  by (induction al) auto

subsection \<open>Mutual exclusion is kept\<close>

lemma exclusive_generateCell:
  assumes "exclusive s"
  shows "exclusive (generateCell g s)"
proof -
  have near: "exclusive (s\<lparr>loadedAetherytes := AList.update g a (loadedAetherytes s),
                distantStars := remove_first (\<lambda>st. gridKey st = g) (distantStars s)\<rparr>)"
    if "\<not> has_aetheryte s g" for a
    using assms that
    by (auto simp: exclusive_def has_aetheryte_def update_fresh remove_first_filter distinct_map_filter)
  have far: "exclusive (s\<lparr>distantStars := distantStars s @ [createDistantStar g p]\<rparr>)"
    if "\<not> has_aetheryte s g" "\<not> has_star s g" for p
    using assms that
    by (auto simp: exclusive_def has_aetheryte_def has_star_def createDistantStar_def)
  show ?thesis
    unfolding generateCell_def Let_def using assms near far by simp
qed

lemma exclusive_cleanupAetheryte:
  assumes "exclusive s" "\<not> has_star s k"
  shows "exclusive (cleanupAetheryte (k, a) s)"
proof -
  have gone: "exclusive (s\<lparr>loadedAetherytes := AList.delete k (loadedAetherytes s)\<rparr>)"
    using assms(1) by (auto simp: exclusive_def delete_filter distinct_map_filter)
  have down: "exclusive (s\<lparr>loadedAetherytes := AList.delete k (loadedAetherytes s),
                distantStars := distantStars s @ [createDistantStar k p]\<rparr>)" for p
    using assms by (auto simp: exclusive_def has_star_def delete_filter distinct_map_filter createDistantStar_def)
  show ?thesis
    unfolding cleanupAetheryte_def Let_def using assms(1) gone down
    by (simp split: option.split)
qed

lemma star_keys_cleanupAetheryte:
  "gridKey ` set (distantStars (cleanupAetheryte (k, a) s)) \<subseteq> insert k (gridKey ` set (distantStars s))"
  by (auto simp: cleanupAetheryte_def Let_def createDistantStar_def split: option.splits)

lemma exclusive_fold_cleanupAetheryte:
  assumes "exclusive s" "distinct (map fst es)"
    and "fst ` set es \<inter> gridKey ` set (distantStars s) = {}"
  shows "exclusive (fold cleanupAetheryte es s)"
  using assms
proof (induction es arbitrary: s)
  case Nil
  then show ?case by simp
next
  case (Cons e es)
  obtain k a where e: "e = (k, a)" by (cases e)
  have nostar: "\<not> has_star s k" using Cons.prems(3) by (auto simp: e has_star_def)
  have ex: "exclusive (cleanupAetheryte e s)"
    unfolding e using Cons.prems(1) nostar by (rule exclusive_cleanupAetheryte)
  have "k \<notin> fst ` set es" using Cons.prems(2) by (auto simp: e)
  moreover have "fst ` set es \<inter> gridKey ` set (distantStars s) = {}"
    using Cons.prems(3) by auto
  moreover note star_keys_cleanupAetheryte [of k a s]
  ultimately have "fst ` set es \<inter> gridKey ` set (distantStars (cleanupAetheryte e s)) = {}"
    unfolding e by blast
  with Cons.IH [OF ex] Cons.prems(2) show ?case by simp
qed

lemma exclusive_cleanupDistantObjects:
  assumes "exclusive s"
  shows "exclusive (cleanupDistantObjects c r s)"
proof -
  let ?s1 = "fold cleanupAetheryte (loadedAetherytes s) s"
  have "exclusive ?s1"
    using assms by (intro exclusive_fold_cleanupAetheryte) (auto simp: exclusive_def)
  then show ?thesis
    by (auto simp: cleanupDistantObjects_def Let_def exclusive_def distinct_map_filter)
qed

lemma exclusive_update:
  assumes "updateProceduralAetherytes s = Some t" "exclusive s"
  shows "exclusive t"
  using assms(1)
proof (cases rule: update_cases)
  case throttled
  with assms(2) show ?thesis by (simp add: exclusive_def)
next
  case (generated s2)
  have "exclusive (s\<lparr>frameCount := js_add (frameCount s) 1\<rparr>)"
    using assms(2) by (simp add: exclusive_def)
  with generated(2) have "exclusive s2"
    by (rule generate_invariant) (rule exclusive_generateCell)
  then show ?thesis
    unfolding generated(3) by (rule exclusive_cleanupDistantObjects)
qed

lemma reachable_exclusive: "reachable s \<Longrightarrow> exclusive s"
proof (induction rule: reachable.induct)
  case (start fr)
  show ?case by (simp add: exclusive_def constructed_def)
next
  case (tick s s')
  then show ?case by (auto intro: exclusive_update)
next
  case (move s cam)
  then show ?case by (simp add: exclusive_def)
next
  case (crystals s)
  then show ?case
    by (simp add: exclusive_def animateAetherytes_def case_prod_beta' comp_def image_image)
qed

subsection \<open>Objects stay where their cell put them\<close>




lemma createAetheryte_fields:
  "gridKey (createAetheryte g p) = g"
  "originalPosition (createAetheryte g p) = Some p"
  "position (createAetheryte g p) = p"
  "drift (createAetheryte g p) \<noteq> None"
  by (simp_all add: createAetheryte_def split: prod.split del: not_None_eq)


lemma createDistantStar_fields:
  "gridKey (createDistantStar g p) = g"
  "originalPosition (createDistantStar g p) = Some p"
  "position (createDistantStar g p) = p"
  by (simp_all add: createDistantStar_def)


lemma cleanupAetheryte_None:
  "originalPosition a = None \<Longrightarrow> cleanupAetheryte (k, a) s = s"
  by (simp add: cleanupAetheryte_def)

lemma cleanupAetheryte_Some:
  "originalPosition a = Some p \<Longrightarrow>
   cleanupAetheryte (k, a) s =
     (if distanceTo (cam_position (camera s)) p > renderDistance s * (12 / 10) then
        s\<lparr>loadedAetherytes := AList.delete k (loadedAetherytes s)\<rparr>
      else if distanceTo (cam_position (camera s)) p > detailDistance s * (12 / 10) then
        s\<lparr>loadedAetherytes := AList.delete k (loadedAetherytes s),
          distantStars := distantStars s @ [createDistantStar k p]\<rparr>
      else s)"
  by (simp add: cleanupAetheryte_def Let_def)









lemma reachable_animate:
  assumes "reachable s" "animate cam s = Some s'"
  shows "reachable s'"
proof -
  from assms(2) obtain t where t: "updateProceduralAetherytes (s\<lparr>camera := cam\<rparr>) = Some t"
    and s': "s' = animateAetherytes t"
    by (auto simp: animate_def bind_eq_Some_conv)
  from reachable.tick [OF reachable.move [OF assms(1)] t] show ?thesis
    unfolding s' by (rule reachable.crystals)
qed

subsection \<open>The drift is bounded\<close>










subsection \<open>What the sweep does, in closed form\<close>

lemma cleanupAetheryte_tests:
  "cleanupAetheryte (k, a) s =
     (if tooFar s a then s\<lparr>loadedAetherytes := AList.delete k (loadedAetherytes s)\<rparr>
      else if beyondDetail s a then
        s\<lparr>loadedAetherytes := AList.delete k (loadedAetherytes s),
          distantStars := distantStars s @ [createDistantStar k (the (originalPosition a))]\<rparr>
      else s)"
  by (cases "originalPosition a")
     (simp_all add: cleanupAetheryte_None cleanupAetheryte_Some tooFar_def beyondDetail_def)

lemma keepStar_tooFar: "keepStar s st = (\<not> tooFar s st)"
  by (simp add: keepStar_def tooFar_def split: option.split)

lemma tests_frame:
  assumes "camera s' = camera s" "renderDistance s' = renderDistance s"
    "detailDistance s' = detailDistance s"
  shows "tooFar s' = tooFar s" "beyondDetail s' = beyondDetail s"
  unfolding fun_eq_iff tooFar_def beyondDetail_def assms by simp_all

lemma tests_cleanupAetheryte:
  "tooFar (cleanupAetheryte e s) = tooFar s"
  "beyondDetail (cleanupAetheryte e s) = beyondDetail s"
  by (rule tests_frame; simp add: cleanupAetheryte_frame)+

lemma fold_cleanupAetheryte_closed:
  "loadedAetherytes (fold cleanupAetheryte es s) =
     filter (\<lambda>e. \<forall>e' \<in> set es. leaves s e' \<longrightarrow> fst e' \<noteq> fst e) (loadedAetherytes s) \<and>
   distantStars (fold cleanupAetheryte es s) =
     distantStars s @ map standIn (filter (downgraded s) es)"
proof (induction es arbitrary: s)
  case Nil
  show ?case by simp
next
  case (Cons e es)
  obtain k a where e: "e = (k, a)" by (cases e)
  let ?s' = "cleanupAetheryte e s"
  have t: "leaves ?s' = leaves s" "downgraded ?s' = downgraded s"
    by (simp_all add: fun_eq_iff leaves_def downgraded_def tests_cleanupAetheryte)
  have l: "loadedAetherytes ?s' =
      (if leaves s e then filter (\<lambda>x. fst x \<noteq> k) (loadedAetherytes s) else loadedAetherytes s)"
    by (simp add: e cleanupAetheryte_tests leaves_def delete_filter)
  have d: "distantStars ?s' =
      (if downgraded s e then distantStars s @ [standIn e] else distantStars s)"
    by (simp add: e cleanupAetheryte_tests downgraded_def standIn_def)
  from Cons.IH [of ?s'] show ?case
    unfolding t l d
    by (auto simp: e intro: filter_cong)
qed

lemma cleanupDistantObjects_closed:
  "loadedAetherytes (cleanupDistantObjects c r s) =
     filter (\<lambda>e. \<forall>e' \<in> set (loadedAetherytes s). leaves s e' \<longrightarrow> fst e' \<noteq> fst e)
       (loadedAetherytes s)"
  "distantStars (cleanupDistantObjects c r s) =
     filter (\<lambda>st. \<not> tooFar s st)
       (distantStars s @ map standIn (filter (downgraded s) (loadedAetherytes s)))"
proof -
  let ?s1 = "fold cleanupAetheryte (loadedAetherytes s) s"
  have "tooFar ?s1 = tooFar s"
    by (rule tests_frame) (simp_all add: fold_cleanupAetheryte_frame)
  then have k: "keepStar ?s1 = (\<lambda>st. \<not> tooFar s st)"
    by (simp add: fun_eq_iff keepStar_tooFar)
  show "loadedAetherytes (cleanupDistantObjects c r s) =
     filter (\<lambda>e. \<forall>e' \<in> set (loadedAetherytes s). leaves s e' \<longrightarrow> fst e' \<noteq> fst e)
       (loadedAetherytes s)"
    using fold_cleanupAetheryte_closed [of "loadedAetherytes s" s]
    by (simp add: cleanupDistantObjects_def Let_def)
  show "distantStars (cleanupDistantObjects c r s) =
     filter (\<lambda>st. \<not> tooFar s st)
       (distantStars s @ map standIn (filter (downgraded s) (loadedAetherytes s)))"
    using fold_cleanupAetheryte_closed [of "loadedAetherytes s" s]
    by (simp add: cleanupDistantObjects_def Let_def k)
qed

lemma kept_entry:
  assumes "distinct (map fst (loadedAetherytes s))" "e \<in> set (loadedAetherytes s)"
  shows "e \<in> set (loadedAetherytes (cleanupDistantObjects c r s)) \<longleftrightarrow> \<not> leaves s e"
proof -
  have u: "e' = e" if "e' \<in> set (loadedAetherytes s)" "fst e' = fst e" for e'
    using assms that by (metis eq_key_imp_eq_value prod.collapse)
  show ?thesis
    unfolding cleanupDistantObjects_closed using assms(2) u by auto
qed

subsection \<open>The generation loop with exact counters\<close>

lemma fold_concat_lists: "fold f (concat xss) = fold (fold f) xss"
  by (induction xss) simp_all

lemma fold_nested:
  "fold (\<lambda>x. fold (\<lambda>y. fold (\<lambda>z. f (x, y, z)) zs) ys) xs =
   fold f (concat (map (\<lambda>x. concat (map (\<lambda>y. map (\<lambda>z. (x, y, z)) zs) ys)) xs))"
  by (simp add: fold_concat_lists fold_map comp_def)

lemma generate_exact:
  assumes "exact_counters c r"
  shows "generate c r s = Some (fold generateCell (candidateCells c r) s)"
proof -
  obtain cx cy cz where c: "c = (cx, cy, cz)" by (cases c)
  have ex: "\<bar>cx\<bar> + \<bar>r\<bar> + 1 < 2 ^ 53" "\<bar>cy\<bar> + \<bar>r\<bar> + 1 < 2 ^ 53" "\<bar>cz\<bar> + \<bar>r\<bar> + 1 < 2 ^ 53"
    using assms by (simp_all add: exact_counters_def c)
  have lo: "js_sub v r = v - r" and hi: "js_add v r = v + r"
    and lo_ok: "- (2 ^ 53) \<le> v - r" and hi_ok: "v + r + 1 < 2 ^ 53"
    if "\<bar>v\<bar> + \<bar>r\<bar> + 1 < 2 ^ 53" for v
    using that by (auto intro!: js_sub_exact js_add_exact)
  have loop: "for_loop (v - r) (v + r) (\<lambda>i s. Some (f i s)) = (\<lambda>u. Some (fold f [v - r..v + r] u))"
    if "\<bar>v\<bar> + \<bar>r\<bar> + 1 < 2 ^ 53" for v and f :: "int \<Rightarrow> state \<Rightarrow> state"
    using lo_ok [OF that] hi_ok [OF that] by (intro ext for_loop_exact)
  show ?thesis
    unfolding generate_def c candidateCells_def prod.case
      lo [OF ex(1)] lo [OF ex(2)] lo [OF ex(3)] hi [OF ex(1)] hi [OF ex(2)] hi [OF ex(3)]
    by (simp only: loop [OF ex(1)] loop [OF ex(2)] loop [OF ex(3)] fold_nested)
qed

lemma generateCell_unseen:
  "\<not> containsPoint (camera s) (gridToWorld s g) \<Longrightarrow> generateCell g s = s"
  by (simp add: generateCell_def Let_def isInViewFrustum_def)

lemma fold_generateCell_unseen:
  assumes "\<And>g. g \<in> set gs \<Longrightarrow> \<not> containsPoint (camera s) (gridToWorld s g)"
  shows "fold generateCell gs s = s"
  using assms by (induction gs) (simp_all add: generateCell_unseen)

lemma generateCell_idem: "generateCell g (generateCell g s) = generateCell g s"
proof -
  let ?t = "generateCell g s"
  have fr: "shouldHaveAetheryte ?t g = shouldHaveAetheryte s g"
    "gridToWorld ?t g = gridToWorld s g" "camera ?t = camera s"
    "renderDistance ?t = renderDistance s" "detailDistance ?t = detailDistance s"
    "isInViewFrustum ?t = isInViewFrustum s"
    by (simp_all add: shouldHaveAetheryte_def gridToWorld_def isInViewFrustum_def fun_eq_iff
          generateCell_frame)
  show ?thesis
  proof (cases "?t = s")
    case True
    then show ?thesis by simp
  next
    case False
    then consider
        (near) "distanceTo (cam_position (camera s)) (gridToWorld s g) < detailDistance s"
          "has_aetheryte ?t g"
      | (far) "\<not> distanceTo (cam_position (camera s)) (gridToWorld s g) < detailDistance s"
          "has_star ?t g"
      by (auto simp: generateCell_def Let_def has_aetheryte_def has_star_def AList.dom_update
            createDistantStar_fields split: if_splits)
    then show ?thesis
    proof cases
      case near
      then show ?thesis
        by (subst generateCell_def) (simp add: fr Let_def)
    next
      case far
      then show ?thesis
        by (subst generateCell_def) (simp add: fr Let_def)
    qed
  qed
qed

lemma fold_generateCell_only:
  assumes "\<And>g. g \<in> set gs \<Longrightarrow> g \<noteq> k \<Longrightarrow> \<not> containsPoint (camera s) (gridToWorld s g)"
    and "k \<in> set gs"
  shows "fold generateCell gs s = generateCell k s"
  using assms
proof (induction gs arbitrary: s)
  case Nil
  then show ?case by simp
next
  case (Cons h gs)
  show ?case
  proof (cases "h = k")
    case False
    with Cons.prems have "generateCell h s = s" "k \<in> set gs"
      by (simp_all add: generateCell_unseen)
    with Cons.IH [of s] Cons.prems(1) show ?thesis by simp
  next
    case True
    let ?t = "generateCell k s"
    have fr: "containsPoint (camera ?t) (gridToWorld ?t g) = containsPoint (camera s) (gridToWorld s g)" for g
      by (simp add: generateCell_frame gridToWorld_def)
    show ?thesis
    proof (cases "k \<in> set gs")
      case True
      with Cons.IH [of ?t] Cons.prems(1) have "fold generateCell gs ?t = generateCell k ?t"
        by (simp add: fr)
      with \<open>h = k\<close> show ?thesis by (simp add: generateCell_idem)
    next
      case False
      have "fold generateCell gs ?t = ?t"
      proof (rule fold_generateCell_unseen)
        fix g assume "g \<in> set gs"
        with False Cons.prems(1) [of g] show "\<not> containsPoint (camera ?t) (gridToWorld ?t g)"
          by (auto simp: fr)
      qed
      with \<open>h = k\<close> show ?thesis by simp
    qed
  qed
qed

lemma mem_candidateCells:
  "(x, y, z) \<in> set (candidateCells (cx, cy, cz) r) \<longleftrightarrow>
     cx - r \<le> x \<and> x \<le> cx + r \<and> cy - r \<le> y \<and> y \<le> cy + r \<and> cz - r \<le> z \<and> z \<le> cz + r"
  by (auto simp: candidateCells_def image_iff)

subsection \<open>A concrete run\<close>

lemma sqrt_less_numeral: "0 < b \<Longrightarrow> sqrt a < b \<longleftrightarrow> a < b\<^sup>2"
  by (metis real_sqrt_less_iff real_sqrt_abs abs_of_pos)

lemma less_sqrt_numeral: "0 \<le> b \<Longrightarrow> b < sqrt a \<longleftrightarrow> b\<^sup>2 < a"
  by (metis real_sqrt_less_iff real_sqrt_abs abs_of_nonneg)

lemma mod10_idle: "1 \<le> j \<Longrightarrow> (a::int) mod 10 + j \<le> 9 \<Longrightarrow> (a + j) mod 10 \<noteq> 0"
  by presburger

lemma reachable_idle:
  assumes "reachable s" "0 \<le> frameCount s"
    and "frameCount s mod 10 + int i \<le> 9" "frameCount s + int i < 2 ^ 53"
  shows "reachable (s\<lparr>frameCount := frameCount s + int i\<rparr>)"
  using assms(3,4)
proof (induction i)
  case 0
  with assms(1) show ?case by simp
next
  case (Suc i)
  let ?u = "s\<lparr>frameCount := frameCount s + int i\<rparr>"
  have r: "reachable ?u" using Suc by simp
  have inc: "js_add (frameCount s + int i) 1 = frameCount s + int (Suc i)"
    using assms(2) Suc.prems by (simp add: js_add_exact)
  have "(frameCount s + int (Suc i)) mod 10 \<noteq> 0"
    using Suc.prems(1) by (intro mod10_idle) simp_all
  then have "updateProceduralAetherytes ?u = Some (s\<lparr>frameCount := frameCount s + int (Suc i)\<rparr>)"
    by (simp add: updateProceduralAetherytes_def Let_def inc del: of_nat_Suc)
  from reachable.tick [OF r this] show ?case .
qed

lemma reachable_nine: "reachable ((constructed fr)\<lparr>frameCount := 9\<rparr>)"
  using reachable_idle [OF reachable.start, of fr 9]
  by (simp add: constructed_def)

lemma chance_pos: "0 < fl (3 / 10)"
proof -
  have "fl (1 / 4) \<le> fl (3 / 10)" by (rule fl_mono) simp
  then show ?thesis using fl_quarters [of 1] by simp
qed

lemma home_position: "gridToWorld s (0, 0, 0) = (- 10, - 10, - 10)"
  by (simp add: gridToWorld_jitter seededRandom_origin jitter_origin fl_0 fl_10)

lemma home_gate: "configured s \<Longrightarrow> shouldHaveAetheryte s (0, 0, 0)"
  by (simp add: shouldHaveAetheryte_def seededRandom_origin configured_def chance_pos)

lemma grid_of_camera:
  assumes "gridSize s = 100"
  shows "getGridPosition s (0, 5, 50) = (0, 0, 1)"
    and "getGridPosition s (180, - 10, - 10) = (2, 0, 0)"
    and "getGridPosition s (351, - 10, - 10) = (4, 0, 0)"
proof -
  have r: "round (fl (0 / 100)) = 0" "round (fl (5 / 100)) = 0" "round (fl (50 / 100)) = 1"
    "round (fl (180 / 100)) = 2" "round (fl (- 10 / 100)) = 0" "round (fl (351 / 100)) = 4"
  proof -
    show "round (fl (0 / 100)) = 0" by (simp add: fl_0)
    show "round (fl (5 / 100)) = 0" by (rule round_fl [of 0 _ 1]) simp_all
    show "round (fl (50 / 100)) = 1" by (rule round_fl [of 2 _ 2]) simp_all
    show "round (fl (180 / 100)) = 2" by (rule round_fl [of 7 _ 8]) simp_all
    show "round (fl (- 10 / 100)) = 0" by (rule round_fl [of "- 1" _ 0]) simp_all
    show "round (fl (351 / 100)) = 4" by (rule round_fl [of 14 _ 16]) simp_all
  qed
  show "getGridPosition s (0, 5, 50) = (0, 0, 1)"
    "getGridPosition s (180, - 10, - 10) = (2, 0, 0)"
    "getGridPosition s (351, - 10, - 10) = (4, 0, 0)"
    unfolding getGridPosition_def assms prod.case by (simp_all only: r)
qed

lemma candidate_keys:
  assumes "g \<in> set (candidateCells c r)" "keys_within b c" "b + r \<le> b'"
  shows "keys_within b' g"
proof -
  obtain x y z cx cy cz where g: "g = (x, y, z)" and c: "c = (cx, cy, cz)"
    by (cases g, cases c) auto
  from assms show ?thesis
    unfolding g c mem_candidateCells keys_within_def prod.case by linarith
qed

lemma unseen_cell:
  assumes "gridSize u = 100" "containsPoint (camera u) = view_cell k"
    and "keys_within (2 ^ 48) g" "g \<noteq> k"
  shows "generateCell g u = u"
  using roundtrip_configured(2) [OF assms(1,3), of k] assms(2,4)
  by (intro generateCell_unseen) simp

lemma home_distance: "distanceTo (0, 5, 50) (- 10, - 10, - 10) = sqrt 3925"
  by (simp add: distanceTo_def)

lemma tenth_tick:
  "updateProceduralAetherytes ((constructed (view_cell (0, 0, 0)))\<lparr>frameCount := 9\<rparr>)
     = Some home_loaded"
proof -
  let ?s9 = "(constructed (view_cell (0, 0, 0)))\<lparr>frameCount := 9\<rparr>"
  let ?s1 = "(constructed (view_cell (0, 0, 0)))\<lparr>frameCount := 10\<rparr>"
  have inc: "js_add 9 1 = 10" by (simp add: js_add_exact)
  have gs: "gridSize ?s1 = 100" by (simp add: constructed_def)
  have c: "getGridPosition ?s1 (cam_position (camera ?s1)) = (0, 0, 1)"
    using grid_of_camera(1) [OF gs] by (simp add: constructed_def)
  have r: "\<lceil>renderDistance ?s1 / gridSize ?s1\<rceil> = 3"
    by (simp add: constructed_def)
  have "generate (0, 0, 1) 3 ?s1 = Some (fold generateCell (candidateCells (0, 0, 1) 3) ?s1)"
    by (rule generate_exact) (simp add: exact_counters_def)
  also have "fold generateCell (candidateCells (0, 0, 1) 3) ?s1 = generateCell (0, 0, 0) ?s1"
  proof (rule fold_generateCell_only)
    fix g :: gridpos assume g: "g \<in> set (candidateCells (0, 0, 1) 3)" "g \<noteq> (0, 0, 0)"
    have "keys_within (2 ^ 48) g"
      by (rule candidate_keys [OF g(1), of 1]) (simp_all add: keys_within_def)
    from unseen_cell [OF gs _ this g(2)] roundtrip_configured(2) [OF gs this, of "(0, 0, 0)"] g(2)
    show "\<not> containsPoint (camera ?s1) (gridToWorld ?s1 g)"
      by (simp add: constructed_def)
  next
    show "(0, 0, 0) \<in> set (candidateCells (0, 0, 1) 3)"
      by (simp add: mem_candidateCells)
  qed
  also have "generateCell (0, 0, 0) ?s1 = home_loaded"
    unfolding generateCell_def Let_def home_loaded_def home_crystal_def constructed_def
    by (simp add: shouldHaveAetheryte_def seededRandom_origin chance_pos home_position
          isInViewFrustum_def view_cell_def round_def has_aetheryte_def has_star_def
          distanceTo_def sqrt_less_numeral less_sqrt_numeral)
  finally have g: "generate (0, 0, 1) 3 ?s1 = Some home_loaded" .
  have cl: "cleanupDistantObjects (0, 0, 1) 3 home_loaded = home_loaded"
  proof -
    have o: "originalPosition home_crystal = Some (- 10, - 10, - 10)"
      by (simp add: home_crystal_def createAetheryte_fields)
    have d: "distanceTo (cam_position (camera home_loaded)) (- 10, - 10, - 10) = sqrt 3925"
      using home_distance by (simp add: home_loaded_def constructed_def)
    have "cleanupAetheryte ((0, 0, 0), home_crystal) home_loaded = home_loaded"
      unfolding cleanupAetheryte_Some [OF o] d
      by (simp add: home_loaded_def constructed_def less_sqrt_numeral)
    then show ?thesis
      by (simp add: cleanupDistantObjects_def Let_def)
         (simp add: home_loaded_def constructed_def)
  qed
  have "updateProceduralAetherytes ?s9 =
      Option.bind
        (generate (getGridPosition ?s1 (cam_position (camera ?s1)))
           \<lceil>renderDistance ?s1 / gridSize ?s1\<rceil> ?s1)
        (\<lambda>s2. Some (cleanupDistantObjects (getGridPosition ?s1 (cam_position (camera ?s1)))
           \<lceil>renderDistance ?s1 / gridSize ?s1\<rceil> s2))"
    by (simp add: updateProceduralAetherytes_def Let_def inc)
  also have "\<dots> = Some home_loaded"
    unfolding c r g by (simp add: cl)
  finally show ?thesis .
qed

lemma reachable_home_loaded: "reachable home_loaded"
  using reachable.tick [OF reachable_nine tenth_tick] .

subsection \<open>One cell at a time\<close>

lemma has_star_stars_at: "has_star s key \<longleftrightarrow> stars_at s key \<noteq> []"
  by (auto simp: has_star_def stars_at_def filter_empty_conv)

lemma has_aetheryte_at: "has_aetheryte s key \<longleftrightarrow> aetheryte_at s key \<noteq> None"
  by (simp add: has_aetheryte_def aetheryte_at_def map_of_eq_None_iff)

lemma filter_remove_first:
  "(\<And>x. Q x \<Longrightarrow> \<not> P x) \<Longrightarrow> filter P (remove_first Q xs) = filter P xs"
  by (induction xs) auto

lemma generateCell_other:
  assumes "h \<noteq> key"
  shows "aetheryte_at (generateCell h u) key = aetheryte_at u key"
    and "stars_at (generateCell h u) key = stars_at u key"
proof -
  show "aetheryte_at (generateCell h u) key = aetheryte_at u key"
    using assms by (simp add: generateCell_def Let_def aetheryte_at_def AList.update_conv')
  have rf: "filter (\<lambda>st. gridKey st = key) (remove_first (\<lambda>st. gridKey st = h) xs)
        = filter (\<lambda>st. gridKey st = key) xs" for xs :: "object3d list"
    using assms by (intro filter_remove_first) auto
  show "stars_at (generateCell h u) key = stars_at u key"
    using assms by (simp add: generateCell_def Let_def stars_at_def createDistantStar_fields rf)
qed



lemma same_view_tests:
  assumes "same_view u s"
  shows "shouldHaveAetheryte u = shouldHaveAetheryte s" "gridToWorld u = gridToWorld s"
    "isInViewFrustum u = isInViewFrustum s" "camera u = camera s"
    "renderDistance u = renderDistance s" "detailDistance u = detailDistance s"
  using assms
  by (simp_all add: same_view_def fun_eq_iff shouldHaveAetheryte_def gridToWorld_def
        isInViewFrustum_def)

lemma same_view_generateCell: "same_view u s \<Longrightarrow> same_view (generateCell h u) s"
  by (simp add: same_view_def generateCell_frame)



subsection \<open>The sweep, entry by entry\<close>

lemma tooFar_iff:
  "originalPosition obj = Some p \<Longrightarrow>
   tooFar s obj \<longleftrightarrow> distanceTo (cam_position (camera s)) p > renderDistance s * (12 / 10)"
  by (simp add: tooFar_def)

lemma beyondDetail_iff:
  "originalPosition obj = Some p \<Longrightarrow>
   beyondDetail s obj \<longleftrightarrow> distanceTo (cam_position (camera s)) p > detailDistance s * (12 / 10)"
  by (simp add: beyondDetail_def)

lemma unique_entry:
  assumes "distinct (map fst al)" "(k, a) \<in> set al" "e \<in> set al" "fst e = k"
  shows "e = (k, a)"
  using assms by (metis eq_key_imp_eq_value prod.collapse)

lemma standIn_fields:
  "gridKey (standIn e) = fst e"
  "originalPosition (standIn e) = Some (the (originalPosition (snd e)))"
  by (simp_all add: standIn_def createDistantStar_fields)

lemma swept_stars:
  assumes "st \<in> set (distantStars (cleanupDistantObjects c r s))"
  shows "\<not> tooFar s st \<and>
         (st \<in> set (distantStars s) \<or>
          (\<exists>e \<in> set (loadedAetherytes s). downgraded s e \<and> st = standIn e))"
  using assms unfolding cleanupDistantObjects_closed by auto

lemma sweep_kept:
  assumes "exclusive s" "(key, a) \<in> set (loadedAetherytes s)" "\<not> leaves s (key, a)"
  shows "(key, a) \<in> set (loadedAetherytes (cleanupDistantObjects c r s))"
    and "\<not> has_star (cleanupDistantObjects c r s) key"
proof -
  have dist: "distinct (map fst (loadedAetherytes s))"
    using assms(1) by (simp add: exclusive_def)
  show "(key, a) \<in> set (loadedAetherytes (cleanupDistantObjects c r s))"
    using kept_entry [OF dist assms(2)] assms(3) by simp
  show "\<not> has_star (cleanupDistantObjects c r s) key"
  proof
    assume "has_star (cleanupDistantObjects c r s) key"
    then obtain st where st: "st \<in> set (distantStars (cleanupDistantObjects c r s))"
      "gridKey st = key"
      by (auto simp: has_star_def)
    from swept_stars [OF st(1)]
    consider "st \<in> set (distantStars s)"
      | e where "e \<in> set (loadedAetherytes s)" "downgraded s e" "st = standIn e"
      by blast
    then show False
    proof cases
      case 1
      with st(2) assms(1,2) show False
        by (force simp: exclusive_def)
    next
      case 2
      with st(2) have "fst e = key" by (simp add: standIn_fields)
      from unique_entry [OF dist assms(2) 2(1) this] 2(2) assms(3) show False
        by (simp add: leaves_def downgraded_def)
    qed
  qed
qed

lemma sweep_gone:
  assumes "(key, a) \<in> set (loadedAetherytes s)" "leaves s (key, a)"
  shows "\<not> has_aetheryte (cleanupDistantObjects c r s) key"
  using assms unfolding has_aetheryte_def cleanupDistantObjects_closed by force

lemma sweep_downgraded:
  assumes "(key, a) \<in> set (loadedAetherytes s)" "downgraded s (key, a)"
    "originalPosition a = Some p"
  shows "createDistantStar key p \<in> set (distantStars (cleanupDistantObjects c r s))"
proof -
  have "standIn (key, a) = createDistantStar key p"
    using assms(3) by (simp add: standIn_def)
  moreover have "\<not> tooFar s (createDistantStar key p)"
    using assms(2,3) by (simp add: downgraded_def tooFar_def createDistantStar_fields)
  ultimately show ?thesis
    unfolding cleanupDistantObjects_closed using assms(1,2) by force
qed

lemma sweep_removed:
  assumes "exclusive s" "(key, a) \<in> set (loadedAetherytes s)" "tooFar s a"
  shows "\<not> has_star (cleanupDistantObjects c r s) key"
proof
  have dist: "distinct (map fst (loadedAetherytes s))"
    using assms(1) by (simp add: exclusive_def)
  assume "has_star (cleanupDistantObjects c r s) key"
  then obtain st where st: "st \<in> set (distantStars (cleanupDistantObjects c r s))"
    "gridKey st = key"
    by (auto simp: has_star_def)
  from swept_stars [OF st(1)]
  consider "st \<in> set (distantStars s)"
    | e where "e \<in> set (loadedAetherytes s)" "downgraded s e" "st = standIn e"
    by blast
  then show False
  proof cases
    case 1
    with st(2) assms(1,2) show False
      by (force simp: exclusive_def)
  next
    case 2
    with st(2) have "fst e = key" by (simp add: standIn_fields)
    from unique_entry [OF dist assms(2) 2(1) this] 2(2) assms(3) show False
      by (simp add: downgraded_def)
  qed
qed

subsection \<open>Ticks that change nothing but the counter\<close>

lemma update_generated:
  assumes "js_add (frameCount s) 1 mod 10 = 0"
    and "generate (camGridPos s) (checkRadius s) (counted s) = Some s2"
  shows "updateProceduralAetherytes s =
         Some (cleanupDistantObjects (camGridPos s) (checkRadius s) s2)"
  using assms
  by (simp add: updateProceduralAetherytes_def Let_def camGridPos_def checkRadius_def
        counted_def getGridPosition_def)

lemma fold_noop: "(\<And>g. g \<in> set gs \<Longrightarrow> f g s = s) \<Longrightarrow> fold f gs s = s"
  by (induction gs) simp_all

lemma cleanupAetheryte_stays: "\<not> leaves s e \<Longrightarrow> cleanupAetheryte e s = s"
  by (cases e) (simp add: cleanupAetheryte_tests leaves_def)

lemma cleanupDistantObjects_quiet:
  assumes "\<And>e. e \<in> set (loadedAetherytes s) \<Longrightarrow> \<not> leaves s e"
    and "\<And>st. st \<in> set (distantStars s) \<Longrightarrow> \<not> tooFar s st"
  shows "cleanupDistantObjects c r s = s"
proof -
  have "fold cleanupAetheryte (loadedAetherytes s) s = s"
    by (rule fold_noop) (simp add: cleanupAetheryte_stays assms(1))
  moreover have "filter (keepStar s) (distantStars s) = distantStars s"
    by (simp add: filter_id_conv keepStar_tooFar assms(2))
  ultimately show ?thesis
    by (simp add: cleanupDistantObjects_def Let_def)
qed

lemma quiet_tick:
  assumes "exact_counters (camGridPos u) (checkRadius u)"
    and "\<And>g. g \<in> set (candidateCells (camGridPos u) (checkRadius u)) \<Longrightarrow>
           generateCell g (counted u) = counted u"
    and "\<And>e. e \<in> set (loadedAetherytes u) \<Longrightarrow> \<not> leaves u e"
    and "\<And>st. st \<in> set (distantStars u) \<Longrightarrow> \<not> tooFar u st"
  shows "updateProceduralAetherytes u = Some (counted u)"
proof (cases "js_add (frameCount u) 1 mod 10 = 0")
  case False
  then show ?thesis
    by (simp add: updateProceduralAetherytes_def Let_def counted_def)
next
  case True
  have "generate (camGridPos u) (checkRadius u) (counted u)
        = Some (fold generateCell (candidateCells (camGridPos u) (checkRadius u)) (counted u))"
    by (rule generate_exact [OF assms(1)])
  also have "fold generateCell (candidateCells (camGridPos u) (checkRadius u)) (counted u)
        = counted u"
    by (rule fold_noop) (rule assms(2))
  finally have g: "generate (camGridPos u) (checkRadius u) (counted u) = Some (counted u)" .
  have "tooFar (counted u) = tooFar u" "beyondDetail (counted u) = beyondDetail u"
    by (rule tests_frame; simp add: counted_def)+
  then have t: "leaves (counted u) = leaves u" "tooFar (counted u) = tooFar u"
    by (simp_all add: fun_eq_iff leaves_def)
  have l: "loadedAetherytes (counted u) = loadedAetherytes u"
    "distantStars (counted u) = distantStars u"
    by (simp_all add: counted_def)
  have "cleanupDistantObjects (camGridPos u) (checkRadius u) (counted u) = counted u"
    by (rule cleanupDistantObjects_quiet) (simp_all only: t l assms(3,4) not_False_eq_True)
  with update_generated [OF True g] show ?thesis by simp
qed

lemma reachable_quiet:
  assumes "reachable u" "0 \<le> frameCount u" "frameCount u + int k < 2 ^ 53"
    and "\<And>m. 0 \<le> m \<Longrightarrow> m + 1 < 2 ^ 53 \<Longrightarrow>
           updateProceduralAetherytes (u\<lparr>frameCount := m\<rparr>) = Some (u\<lparr>frameCount := m + 1\<rparr>)"
  shows "reachable (u\<lparr>frameCount := frameCount u + int k\<rparr>)"
  using assms(3)
proof (induction k)
  case 0
  with assms(1) show ?case by simp
next
  case (Suc k)
  then have r: "reachable (u\<lparr>frameCount := frameCount u + int k\<rparr>)" by simp
  have "0 \<le> frameCount u + int k" "frameCount u + int k + 1 < 2 ^ 53"
    using assms(2) Suc.prems by simp_all
  from assms(4) [OF this]
  have "updateProceduralAetherytes (u\<lparr>frameCount := frameCount u + int k\<rparr>)
        = Some (u\<lparr>frameCount := frameCount u + int (Suc k)\<rparr>)"
    by (simp add: add.assoc)
  from reachable.tick [OF r this] show ?case .
qed

subsection \<open>The concrete run, continued\<close>

lemma home_crystal_fields:
  "originalPosition home_crystal = Some (- 10, - 10, - 10)"
  "gridKey home_crystal = (0, 0, 0)"
  "position home_crystal = (- 10, - 10, - 10)"
  by (simp_all add: home_crystal_def createAetheryte_fields)

lemma home_star_fields:
  "originalPosition home_star = Some (- 10, - 10, - 10)"
  "gridKey home_star = (0, 0, 0)"
  by (simp_all add: home_star_def createDistantStar_fields)

lemma turned_distance: "distanceTo (180, - 10, - 10) (- 10, - 10, - 10) = 190"
proof -
  have "sqrt 36100 = 190"
    by (rule real_sqrt_unique) simp_all
  then show ?thesis by (simp add: distanceTo_def)
qed

lemma far_distance: "distanceTo (351, - 10, - 10) (- 10, - 10, - 10) = 361"
proof -
  have "sqrt 130321 = 361"
    by (rule real_sqrt_unique) simp_all
  then show ?thesis by (simp add: distanceTo_def)
qed

lemma home_quiet:
  assumes "0 \<le> m" "m + 1 < 2 ^ 53"
  shows "updateProceduralAetherytes (home_loaded\<lparr>frameCount := m\<rparr>)
         = Some (home_loaded\<lparr>frameCount := m + 1\<rparr>)"
proof -
  let ?u = "home_loaded\<lparr>frameCount := m\<rparr>"
  have cu: "counted ?u = home_loaded\<lparr>frameCount := m + 1\<rparr>"
    using assms by (simp add: counted_def js_add_exact)
  have c: "camGridPos ?u = (0, 0, 1)" and r: "checkRadius ?u = 3"
    by (simp_all add: camGridPos_def checkRadius_def grid_of_camera home_loaded_def
          constructed_def)
  have gs: "gridSize (counted ?u) = 100"
    unfolding cu by (simp add: home_loaded_def constructed_def)
  have "updateProceduralAetherytes ?u = Some (counted ?u)"
  proof (rule quiet_tick)
    show "exact_counters (camGridPos ?u) (checkRadius ?u)"
      by (simp add: c r exact_counters_def)
  next
    fix g :: gridpos
    assume "g \<in> set (candidateCells (camGridPos ?u) (checkRadius ?u))"
    then have k: "keys_within (2 ^ 48) g"
      unfolding c r by (rule candidate_keys [of _ _ _ 1]) (simp_all add: keys_within_def)
    show "generateCell g (counted ?u) = counted ?u"
    proof (cases "g = (0, 0, 0)")
      case True
      show ?thesis
        unfolding True cu
        by (simp add: generateCell_def Let_def home_loaded_def constructed_def
              shouldHaveAetheryte_def seededRandom_origin chance_pos home_position
              isInViewFrustum_def view_cell_def round_def has_aetheryte_def
              distanceTo_def sqrt_less_numeral less_sqrt_numeral)
    next
      case False
      show ?thesis
        by (rule unseen_cell [OF gs _ k False])
           (unfold cu, simp add: home_loaded_def constructed_def)
    qed
  next
    fix e assume "e \<in> set (loadedAetherytes ?u)"
    then have e: "e = ((0, 0, 0), home_crystal)"
      by (simp add: home_loaded_def)
    show "\<not> leaves ?u e"
      unfolding e leaves_def
      by (simp add: tooFar_iff [OF home_crystal_fields(1)]
            beyondDetail_iff [OF home_crystal_fields(1)])
         (simp add: home_loaded_def constructed_def home_distance less_sqrt_numeral)
  next
    fix st assume "st \<in> set (distantStars ?u)"
    then show "\<not> tooFar ?u st"
      by (simp add: home_loaded_def constructed_def)
  qed
  then show ?thesis by (simp only: cu)
qed

lemma reachable_turned_away: "reachable turned_away"
proof -
  have "reachable (home_loaded\<lparr>frameCount := frameCount home_loaded + int 139\<rparr>)"
    by (rule reachable_quiet [OF reachable_home_loaded])
       (simp_all add: home_quiet, simp_all add: home_loaded_def)
  then have "reachable (home_loaded\<lparr>frameCount := 149\<rparr>)"
    by (simp add: home_loaded_def)
  from reachable.move [OF this] show ?thesis
    by (simp add: turned_away_def)
qed

lemma turned_away_unseen:
  assumes "g \<in> set (candidateCells c 3)" "keys_within 4 c" "gridSize u = 100"
    "containsPoint (camera u) = view_cell (9, 0, 0)"
  shows "generateCell g u = u"
proof -
  have "keys_within 7 g"
    by (rule candidate_keys [OF assms(1,2)]) simp
  then have "keys_within (2 ^ 48) g" "g \<noteq> (9, 0, 0)"
    by (auto simp: keys_within_def)
  with assms(3,4) show ?thesis by (intro unseen_cell)
qed

lemma small_centres:
  "keys_within 4 (2, 0, 0)" "keys_within 4 (4, 0, 0)" "keys_within 4 (0, 0, 1)"
  by (simp_all add: keys_within_def)

lemma turned_away_tick: "updateProceduralAetherytes turned_away = Some star_left"
proof -
  let ?s1 = "turned_away\<lparr>frameCount := 150\<rparr>"
  have cu: "counted turned_away = ?s1"
    by (simp add: counted_def turned_away_def js_add_exact)
  have inc: "js_add (frameCount turned_away) 1 mod 10 = 0"
    by (simp add: turned_away_def js_add_exact)
  have c: "camGridPos turned_away = (2, 0, 0)" and r: "checkRadius turned_away = 3"
    by (simp_all add: camGridPos_def checkRadius_def grid_of_camera turned_away_def
          home_loaded_def constructed_def)
  have "generate (2, 0, 0) 3 ?s1 = Some (fold generateCell (candidateCells (2, 0, 0) 3) ?s1)"
    by (rule generate_exact) (simp add: exact_counters_def)
  also have "fold generateCell (candidateCells (2, 0, 0) 3) ?s1 = ?s1"
    by (rule fold_noop, rule turned_away_unseen [OF _ small_centres(1)])
       (simp_all add: turned_away_def home_loaded_def constructed_def)
  finally have g: "generate (camGridPos turned_away) (checkRadius turned_away)
      (counted turned_away) = Some ?s1"
    by (simp only: c r cu)
  have d: "distanceTo (cam_position (camera ?s1)) (- 10, - 10, - 10) = 190"
    using turned_distance by (simp add: turned_away_def)
  have "cleanupAetheryte ((0, 0, 0), home_crystal) ?s1 =
      ?s1\<lparr>loadedAetherytes := [], distantStars := [home_star]\<rparr>"
    unfolding cleanupAetheryte_Some [OF home_crystal_fields(1)] d
    by (simp add: turned_away_def home_loaded_def constructed_def home_star_def)
  then have "cleanupDistantObjects (2, 0, 0) 3 ?s1 = star_left"
    by (simp add: cleanupDistantObjects_def Let_def keepStar_def home_star_fields
          turned_away_def home_loaded_def constructed_def turned_distance star_left_def)
  with update_generated [OF inc g] show ?thesis
    by (simp only: c r)
qed

lemma reachable_star_left: "reachable star_left"
  by (rule reachable.tick [OF reachable_turned_away turned_away_tick])

lemma star_quiet:
  assumes "0 \<le> m" "m + 1 < 2 ^ 53"
  shows "updateProceduralAetherytes (star_left\<lparr>frameCount := m\<rparr>)
         = Some (star_left\<lparr>frameCount := m + 1\<rparr>)"
proof -
  let ?u = "star_left\<lparr>frameCount := m\<rparr>"
  have cu: "counted ?u = star_left\<lparr>frameCount := m + 1\<rparr>"
    using assms by (simp add: counted_def js_add_exact)
  have c: "camGridPos ?u = (2, 0, 0)" and r: "checkRadius ?u = 3"
    by (simp_all add: camGridPos_def checkRadius_def grid_of_camera star_left_def
          turned_away_def home_loaded_def constructed_def)
  have "updateProceduralAetherytes ?u = Some (counted ?u)"
  proof (rule quiet_tick)
    show "exact_counters (camGridPos ?u) (checkRadius ?u)"
      by (simp add: c r exact_counters_def)
  next
    fix g assume "g \<in> set (candidateCells (camGridPos ?u) (checkRadius ?u))"
    then have "g \<in> set (candidateCells (2, 0, 0) 3)"
      by (simp only: c r)
    then show "generateCell g (counted ?u) = counted ?u"
      by (rule turned_away_unseen [OF _ small_centres(1)])
         (unfold cu, simp_all add: star_left_def turned_away_def home_loaded_def constructed_def)
  next
    fix e assume "e \<in> set (loadedAetherytes ?u)"
    then show "\<not> leaves ?u e"
      by (simp add: star_left_def)
  next
    fix st assume "st \<in> set (distantStars ?u)"
    then have st: "st = home_star"
      by (simp add: star_left_def)
    show "\<not> tooFar ?u st"
      unfolding st
      by (simp add: tooFar_iff [OF home_star_fields(1)])
         (simp add: star_left_def turned_away_def home_loaded_def constructed_def
            turned_distance)
  qed
  then show ?thesis by (simp only: cu)
qed

lemma reachable_far_view: "reachable far_view"
proof -
  have "reachable (star_left\<lparr>frameCount := frameCount star_left + int 120\<rparr>)"
    by (rule reachable_quiet [OF reachable_star_left])
       (simp_all add: star_quiet, simp_all add: star_left_def)
  then have "reachable (star_left\<lparr>frameCount := 270\<rparr>)"
    by (simp add: star_left_def)
  from reachable.move [OF this] show ?thesis
    by (simp add: far_view_def)
qed

lemma far_due_tick: "updateProceduralAetherytes far_due = Some far_swept"
proof -
  let ?s1 = "far_due\<lparr>frameCount := 280\<rparr>"
  have cu: "counted far_due = ?s1"
    by (simp add: counted_def far_due_def far_view_def js_add_exact)
  have inc: "js_add (frameCount far_due) 1 mod 10 = 0"
    by (simp add: far_due_def js_add_exact)
  have c: "camGridPos far_due = (4, 0, 0)" and r: "checkRadius far_due = 3"
    by (simp_all add: camGridPos_def checkRadius_def grid_of_camera far_due_def far_view_def
          star_left_def turned_away_def home_loaded_def constructed_def)
  have "generate (4, 0, 0) 3 ?s1 = Some (fold generateCell (candidateCells (4, 0, 0) 3) ?s1)"
    by (rule generate_exact) (simp add: exact_counters_def)
  also have "fold generateCell (candidateCells (4, 0, 0) 3) ?s1 = ?s1"
    by (rule fold_noop, rule turned_away_unseen [OF _ small_centres(2)])
       (simp_all add: far_due_def far_view_def star_left_def turned_away_def home_loaded_def
          constructed_def)
  finally have g: "generate (camGridPos far_due) (checkRadius far_due) (counted far_due) = Some ?s1"
    by (simp only: c r cu)
  have "cleanupDistantObjects (4, 0, 0) 3 ?s1 = far_swept"
    by (simp add: cleanupDistantObjects_def Let_def keepStar_def home_star_fields far_due_def
          far_view_def star_left_def turned_away_def home_loaded_def constructed_def
          far_distance far_swept_def)
  with update_generated [OF inc g] show ?thesis
    by (simp only: c r)
qed

lemma reachable_far_due: "reachable far_due"
  using reachable_idle [OF reachable_far_view, of 9]
  by (simp add: far_due_def far_view_def)

lemma looking_away_tick:
  "updateProceduralAetherytes looking_away = Some (looking_away\<lparr>frameCount := 10\<rparr>)"
proof -
  have cu: "counted looking_away = looking_away\<lparr>frameCount := 10\<rparr>"
    by (simp add: counted_def looking_away_def js_add_exact)
  have c: "camGridPos looking_away = (0, 0, 1)" and r: "checkRadius looking_away = 3"
    by (simp_all add: camGridPos_def checkRadius_def grid_of_camera looking_away_def
          constructed_def)
  have "updateProceduralAetherytes looking_away = Some (counted looking_away)"
  proof (rule quiet_tick)
    show "exact_counters (camGridPos looking_away) (checkRadius looking_away)"
      by (simp add: c r exact_counters_def)
  next
    fix g assume "g \<in> set (candidateCells (camGridPos looking_away) (checkRadius looking_away))"
    then have "g \<in> set (candidateCells (0, 0, 1) 3)"
      by (simp only: c r)
    then show "generateCell g (counted looking_away) = counted looking_away"
      by (rule turned_away_unseen [OF _ small_centres(3)])
         (unfold cu, simp_all add: looking_away_def constructed_def)
  next
    fix e assume "e \<in> set (loadedAetherytes looking_away)"
    then show "\<not> leaves looking_away e"
      by (simp add: looking_away_def constructed_def)
  next
    fix st assume "st \<in> set (distantStars looking_away)"
    then show "\<not> tooFar looking_away st"
      by (simp add: looking_away_def constructed_def)
  qed
  then show ?thesis by (simp only: cu)
qed

lemma reachable_looking_away: "reachable looking_away"
  unfolding looking_away_def by (rule reachable_nine)

lemma configured_turned_away: "configured turned_away"
  by (rule reachable_configured [OF reachable_turned_away])

lemma exclusive_turned_away: "exclusive turned_away"
  by (rule reachable_exclusive [OF reachable_turned_away])

lemma loaded_turned_away: "loadedAetherytes turned_away = [((0, 0, 0), home_crystal)]"
  by (simp add: turned_away_def home_loaded_def)

lemma camera_turned_away: "cam_position (camera turned_away) = (180, - 10, - 10)"
  by (simp add: turned_away_def)

subsection \<open>The claims\<close>

text \<open>
  Claim C1 (determinism). The placement gate and the jitter read only the key and the
  generation settings, and no step of a run changes the settings: in any two states
  the program reaches, \<open>shouldHaveAetheryte\<close> gives the same answer for a key and
  \<open>gridToWorld\<close> the same position.
\<close>
theorem gate_and_jitter_deterministic:
  assumes "reachable s" "reachable s'"
  shows "shouldHaveAetheryte s key = shouldHaveAetheryte s' key \<and>
         gridToWorld s key = gridToWorld s' key"
proof -
  have "aetheryteChance s = aetheryteChance s'" "gridSize s = gridSize s'"
    using reachable_configured [OF assms(1)] reachable_configured [OF assms(2)]
    unfolding configured_def by (simp_all only:)
  then show ?thesis
    by (simp only: shouldHaveAetheryte_def gridToWorld_def)
qed

theorem gate_and_jitter_deterministic_witness:
  "shouldHaveAetheryte home_loaded (0, 0, 0) = shouldHaveAetheryte far_view (0, 0, 0) \<and>
   gridToWorld home_loaded (0, 0, 0) = gridToWorld far_view (0, 0, 0)"
  by (rule gate_and_jitter_deterministic [OF reachable_home_loaded reachable_far_view])

text \<open>
  Claim C2 (mutual exclusion). In every state the program reaches, and so after
  every tick that completes, no cell key is in both \<open>loadedAetherytes\<close> and
  \<open>distantStars\<close>.
\<close>

theorem never_both_representations:
  assumes "reachable s"
  shows "\<not> (has_aetheryte s key \<and> has_star s key)"
  using reachable_exclusive [OF assms]
  by (auto simp: exclusive_def has_aetheryte_def has_star_def)

theorem never_both_representations_witness:
  "has_aetheryte home_loaded (0, 0, 0) \<and> \<not> has_star home_loaded (0, 0, 0)"
  using never_both_representations [OF reachable_home_loaded, of "(0, 0, 0)"]
  by (simp add: has_aetheryte_def home_loaded_def)

text \<open>
  Claim C3 (hysteresis on downgrade). The sweep looks at the distance \<open>d\<close> from the
  camera to the stored original position of a loaded object. Up to
  \<open>detailDistance * 1.2\<close> (which includes the band above \<open>detailDistance\<close>) the
  object stays loaded and gets no star; above it and up to \<open>renderDistance * 1.2\<close>
  the object leaves the map and a star at the same position takes its place;
  above \<open>renderDistance * 1.2\<close> the cell is left with neither.
\<close>

theorem downgrade_hysteresis:
  assumes "configured s" "exclusive s"
    and "(key, a) \<in> set (loadedAetherytes s)" "originalPosition a = Some p"
  shows
    "(distanceTo (cam_position (camera s)) p \<le> detailDistance s * (12 / 10) \<longrightarrow>
        (key, a) \<in> set (loadedAetherytes (cleanupDistantObjects c r s)) \<and>
        \<not> has_star (cleanupDistantObjects c r s) key) \<and>
     (detailDistance s * (12 / 10) < distanceTo (cam_position (camera s)) p \<and>
      distanceTo (cam_position (camera s)) p \<le> renderDistance s * (12 / 10) \<longrightarrow>
        \<not> has_aetheryte (cleanupDistantObjects c r s) key \<and>
        createDistantStar key p \<in> set (distantStars (cleanupDistantObjects c r s))) \<and>
     (renderDistance s * (12 / 10) < distanceTo (cam_position (camera s)) p \<longrightarrow>
        \<not> has_aetheryte (cleanupDistantObjects c r s) key \<and>
        \<not> has_star (cleanupDistantObjects c r s) key)"
proof -
  let ?d = "distanceTo (cam_position (camera s)) p"
  have cfg: "detailDistance s * (12 / 10) \<le> renderDistance s * (12 / 10)"
    using assms(1) by (simp add: configured_def)
  have far: "tooFar s a \<longleftrightarrow> renderDistance s * (12 / 10) < ?d"
    and det: "beyondDetail s a \<longleftrightarrow> detailDistance s * (12 / 10) < ?d"
    using assms(4) by (simp_all add: tooFar_iff beyondDetail_iff)
  have 1: "(key, a) \<in> set (loadedAetherytes (cleanupDistantObjects c r s)) \<and>
        \<not> has_star (cleanupDistantObjects c r s) key"
    if "?d \<le> detailDistance s * (12 / 10)"
  proof -
    from that cfg have "\<not> leaves s (key, a)"
      by (simp add: leaves_def far det)
    from sweep_kept [OF assms(2,3) this] show ?thesis by simp
  qed
  have 2: "\<not> has_aetheryte (cleanupDistantObjects c r s) key \<and>
        createDistantStar key p \<in> set (distantStars (cleanupDistantObjects c r s))"
    if "detailDistance s * (12 / 10) < ?d" "?d \<le> renderDistance s * (12 / 10)"
  proof -
    from that have "leaves s (key, a)" "downgraded s (key, a)"
      by (simp_all add: leaves_def downgraded_def far det)
    with sweep_gone [OF assms(3)] sweep_downgraded [OF assms(3) _ assms(4)]
    show ?thesis by simp
  qed
  have 3: "\<not> has_aetheryte (cleanupDistantObjects c r s) key \<and>
        \<not> has_star (cleanupDistantObjects c r s) key"
    if "renderDistance s * (12 / 10) < ?d"
  proof -
    from that have "leaves s (key, a)" "tooFar s a"
      by (simp_all add: leaves_def far)
    with sweep_gone [OF assms(3)] sweep_removed [OF assms(2,3)]
    show ?thesis by simp
  qed
  from 1 2 3 show ?thesis by blast
qed

theorem downgrade_hysteresis_witness:
  "\<not> has_aetheryte (cleanupDistantObjects (2, 0, 0) 3 turned_away) (0, 0, 0) \<and>
   createDistantStar (0, 0, 0) (- 10, - 10, - 10)
     \<in> set (distantStars (cleanupDistantObjects (2, 0, 0) 3 turned_away))"
  using downgrade_hysteresis [OF configured_turned_away exclusive_turned_away,
      of "(0, 0, 0)" home_crystal "(- 10, - 10, - 10)" "(2, 0, 0)" 3]
  by (simp add: loaded_turned_away home_crystal_fields camera_turned_away turned_distance)
     (simp add: turned_away_def home_loaded_def constructed_def)

text \<open>
  Claim C4, as amended. On a tick that is not throttled (the incremented frame
  counter is a multiple of 10) and that returns, no star and no detailed object is
  left whose stored original position is farther than \<open>renderDistance * 1.2\<close> from
  the camera. On the nine ticks in between nothing is swept.
\<close>

theorem sweep_drops_everything_too_far:
  assumes "updateProceduralAetherytes s = Some t" "js_add (frameCount s) 1 mod 10 = 0"
  shows "(\<forall>e \<in> set (loadedAetherytes t). \<forall>p. originalPosition (snd e) = Some p \<longrightarrow>
            distanceTo (cam_position (camera t)) p \<le> renderDistance t * (12 / 10)) \<and>
         (\<forall>st \<in> set (distantStars t). \<forall>p. originalPosition st = Some p \<longrightarrow>
            distanceTo (cam_position (camera t)) p \<le> renderDistance t * (12 / 10))"
  using assms(1)
proof (cases rule: update_cases)
  case throttled
  with assms(2) show ?thesis by simp
next
  case (generated s2)
  have tf: "tooFar t = tooFar s2"
    unfolding generated(3) by (rule tests_frame) (simp_all add: cleanupDistantObjects_frame)
  have "\<not> tooFar s2 (snd e)" if "e \<in> set (loadedAetherytes t)" for e
    using that unfolding generated(3) cleanupDistantObjects_closed
    by (auto simp: leaves_def)
  then have a: "\<not> tooFar t (snd e)" if "e \<in> set (loadedAetherytes t)" for e
    using that by (simp add: tf)
  have "\<not> tooFar s2 st" if "st \<in> set (distantStars t)" for st
    using that swept_stars unfolding generated(3) by blast
  then have b: "\<not> tooFar t st" if "st \<in> set (distantStars t)" for st
    using that by (simp add: tf)
  show ?thesis
  proof (intro conjI ballI allI impI)
    fix e p assume "e \<in> set (loadedAetherytes t)" "originalPosition (snd e) = Some p"
    with a [of e] show "distanceTo (cam_position (camera t)) p \<le> renderDistance t * (12 / 10)"
      by (simp only: tooFar_iff not_less)
  next
    fix st p assume "st \<in> set (distantStars t)" "originalPosition st = Some p"
    with b [of st] show "distanceTo (cam_position (camera t)) p \<le> renderDistance t * (12 / 10)"
      by (simp only: tooFar_iff not_less)
  qed
qed

theorem sweep_drops_everything_too_far_witness:
  "reachable far_due \<and>
   home_star \<in> set (distantStars far_due) \<and>
   originalPosition home_star = Some (- 10, - 10, - 10) \<and>
   renderDistance far_due * (12 / 10)
     < distanceTo (cam_position (camera far_due)) (- 10, - 10, - 10) \<and>
   js_add (frameCount far_due) 1 mod 10 = 0 \<and>
   updateProceduralAetherytes far_due = Some far_swept \<and>
   home_star \<notin> set (distantStars far_swept)"
proof -
  have t: "js_add (frameCount far_due) 1 mod 10 = 0"
    by (simp add: far_due_def js_add_exact)
  have m: "home_star \<in> set (distantStars far_due)"
    by (simp add: far_due_def far_view_def star_left_def)
  have d: "renderDistance far_due * (12 / 10)
      < distanceTo (cam_position (camera far_due)) (- 10, - 10, - 10)"
    by (simp add: far_due_def far_view_def far_distance)
       (simp add: star_left_def turned_away_def home_loaded_def constructed_def)
  have same: "renderDistance far_swept = renderDistance far_due" "camera far_swept = camera far_due"
    by (simp_all add: far_swept_def far_due_def)
  from sweep_drops_everything_too_far [OF far_due_tick t]
  have "\<forall>st \<in> set (distantStars far_swept). \<forall>p. originalPosition st = Some p \<longrightarrow>
          distanceTo (cam_position (camera far_swept)) p \<le> renderDistance far_swept * (12 / 10)"
    by (rule conjunct2)
  with d home_star_fields(1) have "home_star \<notin> set (distantStars far_swept)"
    unfolding same by fastforce
  with reachable_far_due m home_star_fields(1) d t far_due_tick show ?thesis
    by blast
qed

text \<open>
  Claim C4 as stated fails on a throttled tick. In \<open>far_view\<close> the sweep of call
  270 is over and the camera has moved on; call 271 is throttled and returns with
  the star of cell \<open>(0, 0, 0)\<close> still in place, 361 units away, farther than
  \<open>renderDistance * 1.2 = 360\<close>.
\<close>

theorem far_star_survives_throttled_tick:
  "reachable far_view \<and>
   updateProceduralAetherytes far_view = Some (far_view\<lparr>frameCount := 271\<rparr>) \<and>
   home_star \<in> set (distantStars (far_view\<lparr>frameCount := 271\<rparr>)) \<and>
   originalPosition home_star = Some (- 10, - 10, - 10) \<and>
   renderDistance (far_view\<lparr>frameCount := 271\<rparr>) * (12 / 10)
     < distanceTo (cam_position (camera (far_view\<lparr>frameCount := 271\<rparr>))) (- 10, - 10, - 10)"
proof -
  have "js_add (frameCount far_view) 1 = 271"
    by (simp add: far_view_def js_add_exact)
  then have "updateProceduralAetherytes far_view = Some (far_view\<lparr>frameCount := 271\<rparr>)"
    by (simp add: updateProceduralAetherytes_def Let_def)
  moreover have "renderDistance far_view * (12 / 10)
      < distanceTo (cam_position (camera far_view)) (- 10, - 10, - 10)"
    by (simp add: far_view_def far_distance)
       (simp add: star_left_def turned_away_def home_loaded_def constructed_def)
  moreover have "home_star \<in> set (distantStars far_view)"
    by (simp add: far_view_def star_left_def)
  ultimately show ?thesis
    using reachable_far_view by (simp add: home_star_fields)
qed

text \<open>
  Claim C5 (throttling). When the incremented frame counter is not a multiple of 10,
  \<open>updateProceduralAetherytes\<close> returns at once: only the counter has changed, no
  star or detailed object is created, upgraded, downgraded or removed.
\<close>
theorem throttled_tick_changes_nothing:
  assumes "js_add (frameCount s) 1 mod 10 \<noteq> 0"
  shows "updateProceduralAetherytes s = Some (s\<lparr>frameCount := js_add (frameCount s) 1\<rparr>)"
  using assms by (simp add: updateProceduralAetherytes_def Let_def)

theorem throttled_tick_changes_nothing_witness:
  "updateProceduralAetherytes home_loaded = Some (home_loaded\<lparr>frameCount := 11\<rparr>)"
  using throttled_tick_changes_nothing [of home_loaded]
  by (simp add: home_loaded_def js_add_exact)



subsection \<open>The camera stays in range\<close>

lemma fl_pow2:
  "fl (2 ^ 54) = 2 ^ 54" "fl (2 ^ 55) = 2 ^ 55" "fl (2 ^ 50) = 2 ^ 50" "fl (1 / 32) = 1 / 32"
  using fl_exact [of 1 54] fl_exact [of 1 55] fl_exact [of 1 50] fl_exact [of 1 "- 5"]
  by simp_all

lemma velocity_step:
  assumes "\<bar>x\<bar> \<le> 2 ^ 54" "\<bar>v\<bar> \<le> 2"
  shows "\<bar>fl (x + v)\<bar> \<le> 2 ^ 54"
proof -
  have "x + v \<le> 2 ^ 54 + 2" "- (2 ^ 54 + 2) \<le> x + v"
    using assms by linarith+
  from fl_mono [OF this(1)] fl_mono [OF this(2)]
  have "fl (x + v) \<le> 2 ^ 54" "- (2 ^ 54) \<le> fl (x + v)"
    by (simp_all only: fl_neg fl_tie_limit)
  then show ?thesis by linarith
qed

lemma autopilot_upper:
  assumes "x \<le> 2 ^ 54" "- (2 ^ 54) \<le> x" "t \<le> 150" "0 \<le> c" "c \<le> 1 / 32"
  shows "x + fl (fl (t - x) * c) \<le> 2 ^ 54"
proof (cases "t - x \<le> 0")
  case True
  then have "fl (t - x) \<le> 0" by (rule fl_nonpos)
  then have "fl (t - x) * c \<le> 0" using assms(4) by (simp add: mult_nonpos_nonneg)
  then have "fl (fl (t - x) * c) \<le> 0" by (rule fl_nonpos)
  with assms(1) show ?thesis by linarith
next
  case False
  then have x: "x < 150" using assms(3) by linarith
  have "0 \<le> t - x" "t - x \<le> 2 ^ 55" using False assms(2,3) by simp_all
  from fl_nonneg [OF this(1)] fl_mono [OF this(2)]
  have a: "0 \<le> fl (t - x)" "fl (t - x) \<le> 2 ^ 55" by (simp_all only: fl_pow2)
  then have "fl (t - x) * c \<le> 2 ^ 55 * (1 / 32)"
    using assms(4,5) by (intro mult_mono) simp_all
  then have "fl (t - x) * c \<le> 2 ^ 50" by simp
  from fl_mono [OF this] have "fl (fl (t - x) * c) \<le> 2 ^ 50" by (simp only: fl_pow2)
  with x show ?thesis by simp
qed

lemma autopilot_step:
  assumes "\<bar>x\<bar> \<le> 2 ^ 54" "\<bar>t\<bar> \<le> 150"
  shows "\<bar>fl (x + fl (fl (t - x) * fl (2 / 100)))\<bar> \<le> 2 ^ 54"
proof -
  define c where "c = fl (2 / 100)"
  have c: "0 \<le> c" "c \<le> 1 / 32"
  proof -
    show "0 \<le> c" unfolding c_def by (rule fl_nonneg) simp
    have "fl (2 / 100) \<le> fl (1 / 32)" by (rule fl_mono) simp
    then show "c \<le> 1 / 32" unfolding c_def by (simp only: fl_pow2)
  qed
  have up: "x + fl (fl (t - x) * c) \<le> 2 ^ 54"
    using assms by (intro autopilot_upper c) linarith+
  have "- x + fl (fl (- t - (- x)) * c) \<le> 2 ^ 54"
    using assms by (intro autopilot_upper c) linarith+
  moreover have "fl (- t - (- x)) = - fl (t - x)"
    using fl_neg [of "t - x"] by simp
  moreover have "fl (- fl (t - x) * c) = - fl (fl (t - x) * c)"
    using fl_neg [of "fl (t - x) * c"] by simp
  ultimately have lo: "- (2 ^ 54) \<le> x + fl (fl (t - x) * c)" by simp
  from fl_mono [OF up] fl_mono [OF lo]
  have "fl (x + fl (fl (t - x) * c)) \<le> 2 ^ 54" "- (2 ^ 54) \<le> fl (x + fl (fl (t - x) * c))"
    by (simp_all only: fl_neg fl_pow2)
  then show ?thesis unfolding c_def by linarith
qed

lemma flown_reachable: "flown s \<Longrightarrow> reachable s"
  by (induction rule: flown.induct) (auto intro: reachable.intros)

lemma flown_in_range: "flown s \<Longrightarrow> coords_within (2 ^ 54) (cam_position (camera s))"
proof (induction rule: flown.induct)
  case (start fr)
  show ?case by (simp add: constructed_def coords_within_def)
next
  case (tick s s')
  with update_frame [OF tick.hyps(2)] show ?case by simp
next
  case (crystals s)
  then show ?case by (simp add: animateAetherytes_def)
next
  case (turn s fr)
  then show ?case by simp
next
  case (manual s vx vy vz fr)
  obtain px py pz where p: "cam_position (camera s) = (px, py, pz)"
    by (cases "cam_position (camera s)")
  from manual show ?case
    by (simp add: p applyVelocity_def coords_within_def velocity_step [simplified])
next
  case (autopilot s tx ty tz fr)
  obtain px py pz where p: "cam_position (camera s) = (px, py, pz)"
    by (cases "cam_position (camera s)")
  from autopilot show ?case
    by (simp add: p autoPilotStep_def coords_within_def autopilot_step [simplified])
qed

lemma grid_in_range:
  assumes "gridSize s = 100" "coords_within (2 ^ 54) p"
  shows "keys_within (2 ^ 48 - 4) (getGridPosition s p)"
proof -
  have r: "\<bar>round (fl (x / 100))\<bar> \<le> 2 ^ 48 - 4" if "\<bar>x\<bar> \<le> 2 ^ 54" for x :: real
  proof -
    have "x / 100 \<le> of_int (2 ^ 48 - 4)" "of_int (- (2 ^ 48 - 4)) \<le> x / 100"
      using that by simp_all
    from fl_mono [OF this(1)] fl_mono [OF this(2)]
    have "fl (x / 100) \<le> of_int (2 ^ 48 - 4)" "of_int (- (2 ^ 48 - 4)) \<le> fl (x / 100)"
      by (simp_all add: fl_numeral fl_neg)
    from round_mono [OF this(1)] round_mono [OF this(2)]
    have "round (fl (x / 100)) \<le> 2 ^ 48 - 4" "- (2 ^ 48 - 4) \<le> round (fl (x / 100))"
      by (simp_all only: round_of_int)
    then show ?thesis by linarith
  qed
  obtain x y z where p: "p = (x, y, z)" by (cases p)
  show ?thesis
    using assms(2) unfolding p
    by (simp add: getGridPosition_def assms(1) keys_within_def coords_within_def r [simplified])
qed

lemma flown_counters:
  assumes "flown s"
  shows "checkRadius s = 3" "keys_within (2 ^ 48 - 4) (camGridPos s)"
    "exact_counters (camGridPos s) (checkRadius s)"
    "key \<in> set (candidateCells (camGridPos s) (checkRadius s)) \<Longrightarrow> keys_within (2 ^ 48) key"
proof -
  have cfg: "configured s" by (rule reachable_configured [OF flown_reachable [OF assms]])
  then have gs: "gridSize s = 100" by (simp add: configured_def)
  show r: "checkRadius s = 3"
    using cfg by (simp add: checkRadius_def configured_def)
  show k: "keys_within (2 ^ 48 - 4) (camGridPos s)"
    unfolding camGridPos_def by (rule grid_in_range [OF gs flown_in_range [OF assms]])
  obtain cx cy cz where c: "camGridPos s = (cx, cy, cz)" by (cases "camGridPos s")
  show "exact_counters (camGridPos s) (checkRadius s)"
    using k unfolding r c by (simp add: exact_counters_def keys_within_def)
  assume "key \<in> set (candidateCells (camGridPos s) (checkRadius s))"
  then show "keys_within (2 ^ 48) key"
    unfolding r by (rule candidate_keys [OF _ k]) simp
qed

lemma update_exact:
  assumes "exact_counters (camGridPos s) (checkRadius s)"
  shows "updateProceduralAetherytes s =
     Some (if js_add (frameCount s) 1 mod 10 \<noteq> 0 then counted s
           else cleanupDistantObjects (camGridPos s) (checkRadius s)
                  (fold generateCell (candidateCells (camGridPos s) (checkRadius s))
                     (counted s)))"
  using assms unfolding camGridPos_def checkRadius_def counted_def
  by (simp add: updateProceduralAetherytes_def Let_def getGridPosition_def
        generate_exact [unfolded getGridPosition_def])

lemma flown_idle:
  assumes "flown s" "0 \<le> frameCount s"
    and "frameCount s mod 10 + int i \<le> 9" "frameCount s + int i < 2 ^ 53"
  shows "flown (s\<lparr>frameCount := frameCount s + int i\<rparr>)"
  using assms(3,4)
proof (induction i)
  case 0
  with assms(1) show ?case by simp
next
  case (Suc i)
  let ?u = "s\<lparr>frameCount := frameCount s + int i\<rparr>"
  have r: "flown ?u" using Suc by simp
  have inc: "js_add (frameCount s + int i) 1 = frameCount s + int (Suc i)"
    using assms(2) Suc.prems by (simp add: js_add_exact)
  have "(frameCount s + int (Suc i)) mod 10 \<noteq> 0"
    using Suc.prems(1) by (intro mod10_idle) simp_all
  then have "updateProceduralAetherytes ?u = Some (s\<lparr>frameCount := frameCount s + int (Suc i)\<rparr>)"
    by (simp add: updateProceduralAetherytes_def Let_def inc del: of_nat_Suc)
  from flown.tick [OF r this] show ?case .
qed

lemma flown_nudged: "flown nudged"
proof -
  let ?c = "constructed (view_cell (0, 0, 0))"
  let ?m = "?c\<lparr>camera := \<lparr>cam_position = applyVelocity (2, 0, 0) (cam_position (camera ?c)),
                             containsPoint = view_cell (0, 0, 0)\<rparr>\<rparr>"
  have "flown ?m"
    by (rule flown.manual [OF flown.start]) simp_all
  moreover have "applyVelocity (2, 0, 0) (cam_position (camera ?c)) = (2, 5, 50)"
    by (simp add: applyVelocity_def constructed_def fl_numeral)
  ultimately have m: "flown (?c\<lparr>camera := \<lparr>cam_position = (2, 5, 50),
      containsPoint = view_cell (0, 0, 0)\<rparr>\<rparr>)"
    by simp
  from flown_idle [OF m, of 9] show ?thesis
    by (simp add: nudged_def constructed_def)
qed

lemma grid_of_nudged: "gridSize s = 100 \<Longrightarrow> getGridPosition s (2, 5, 50) = (0, 0, 1)"
proof -
  assume gs: "gridSize s = 100"
  have r: "round (fl (2 / 100)) = 0" "round (fl (5 / 100)) = 0" "round (fl (50 / 100)) = 1"
  proof -
    show "round (fl (2 / 100)) = 0" by (rule round_fl [of 0 _ 1]) simp_all
    show "round (fl (5 / 100)) = 0" by (rule round_fl [of 0 _ 1]) simp_all
    show "round (fl (50 / 100)) = 1" by (rule round_fl [of 2 _ 2]) simp_all
  qed
  show ?thesis
    unfolding getGridPosition_def gs prod.case by (simp only: r)
qed

text \<open>
  Claim C8 (totality). The grid-key derivation, the placement gate and the jitter
  have no failing branch, which shows in their types, and the frustum test is that
  of three.js. In every state of a run, where the camera has been moved by the
  program: the hash is a number from 0 to 1, so that the gate compares two numbers;
  the grid position of the camera is in the range where the loop counters are
  exact; the jittered position of every candidate cell is a number within 12 units
  of its lattice point; and the tick returns, with the state given below.
\<close>

theorem tick_returns_on_every_run:
  assumes "flown s"
  shows "0 \<le> seededRandom x y z \<and> seededRandom x y z \<le> 1 \<and>
         exact_counters (camGridPos s) (checkRadius s) \<and>
         (\<forall>key \<in> set (candidateCells (camGridPos s) (checkRadius s)).
            coords_within 12 (latticeOffset s key)) \<and>
         updateProceduralAetherytes s =
           Some (if js_add (frameCount s) 1 mod 10 \<noteq> 0 then counted s
                 else cleanupDistantObjects (camGridPos s) (checkRadius s)
                        (fold generateCell (candidateCells (camGridPos s) (checkRadius s))
                           (counted s)))"
proof -
  have gs: "gridSize s = 100"
    using reachable_configured [OF flown_reachable [OF assms]] by (simp add: configured_def)
  have "coords_within 12 (latticeOffset s key)"
    if "key \<in> set (candidateCells (camGridPos s) (checkRadius s))" for key
    by (rule gridToWorld_near [OF gs flown_counters(4) [OF assms that]])
  with seededRandom_range [of x y z] flown_counters(3) [OF assms]
    update_exact [OF flown_counters(3) [OF assms]]
  show ?thesis by blast
qed

theorem tick_returns_on_every_run_witness:
  "flown nudged \<and>
   camGridPos nudged = (0, 0, 1) \<and> checkRadius nudged = 3 \<and> exact_counters (0, 0, 1) 3 \<and>
   coords_within 12 (latticeOffset nudged (0, 0, 0)) \<and>
   js_add (frameCount nudged) 1 mod 10 = 0 \<and>
   updateProceduralAetherytes nudged =
     Some (cleanupDistantObjects (0, 0, 1) 3
             (fold generateCell (candidateCells (0, 0, 1) 3) (nudged\<lparr>frameCount := 10\<rparr>)))"
proof -
  have c: "camGridPos nudged = (0, 0, 1)" and r: "checkRadius nudged = 3"
    by (simp_all add: camGridPos_def checkRadius_def grid_of_nudged nudged_def constructed_def)
  have m: "(0, 0, 0) \<in> set (candidateCells (0, 0, 1) 3)"
    by (simp add: mem_candidateCells)
  have cu: "counted nudged = nudged\<lparr>frameCount := 10\<rparr>"
    "js_add (frameCount nudged) 1 mod 10 = 0"
    by (simp_all add: counted_def nudged_def js_add_exact)
  from tick_returns_on_every_run [OF flown_nudged] m flown_nudged c r cu(2)
  show ?thesis
    unfolding c r cu by simp
qed

subsection \<open>The round trip between a cell and its jittered position\<close>




text \<open>
  The range matters. At \<open>x = 3000000000000001\<close>, beyond every cell that a run
  visits, the doubles near \<open>x * 100\<close> are 64 apart: the product is rounded 28 units
  up, the jitter is lost in the sum, dividing by 100 gives \<open>3000000000000001.5\<close>, and
  \<^verbatim>\<open>Math.round\<close> returns the next cell, whatever the hash.
\<close>

lemma far_lattice_point: "fl 300000000000000100 = 300000000000000128"
proof -
  have "fl 300000000000000100 = of_int 4687500000000002 * 2 powi (58 - 52)"
    by (rule fl_eqI) simp_all
  then show ?thesis by simp
qed

lemma far_jittered:
  assumes "- 10 \<le> j" "j \<le> 10"
  shows "fl (300000000000000128 + j) = 300000000000000128"
proof -
  have "fl (300000000000000128 + j) = of_int 4687500000000002 * 2 powi (58 - 52)"
    using assms by (intro fl_eqI) (simp_all add: abs_if field_simps)
  then show ?thesis by simp
qed

lemma far_quotient: "fl (300000000000000128 / 100) = 6000000000000003 / 2"
proof -
  have "fl (300000000000000128 / 100) = of_int 6000000000000003 * 2 powi (51 - 52)"
    by (rule fl_eqI) simp_all
  then show ?thesis by simp
qed

lemma axis_zero:
  assumes "- 10 \<le> j" "j \<le> 10"
  shows "round (fl (fl (fl 0 + j) / 100)) = 0"
proof -
  from fl_mono [OF assms(1)] fl_mono [OF assms(2)]
  have "- 10 \<le> fl j" "fl j \<le> 10" by (simp_all add: fl_10)
  then show ?thesis
    by (intro round_fl [of "- 1" _ 1]) (simp_all add: fl_0)
qed

lemma far_key_shifts:
  "getGridPosition home_loaded (gridToWorld home_loaded (3000000000000001, 0, 0))
   = (3000000000000002, 0, 0)"
proof -
  have j: "- 10 \<le> jitter (seededRandom x y z)" "jitter (seededRandom x y z) \<le> 10" for x y z
    using jitter_range [of "seededRandom x y z"] seededRandom_range [of x y z] by simp_all
  have x: "round (fl (fl (fl 300000000000000100 + jitter (seededRandom a b c)) / 100))
      = 3000000000000002" for a b c
    unfolding far_lattice_point far_jittered [OF j] far_quotient
    by (simp add: round_def)
  show ?thesis
    unfolding gridToWorld_jitter getGridPosition_def prod.case
    by (simp add: home_loaded_def constructed_def x axis_zero [OF j])
qed

subsection \<open>A cell out of view\<close>

lemma map_of_filter_key:
  "map_of (filter (\<lambda>e. Q (fst e)) al) k = (if Q k then map_of al k else None)"
  by (induction al) auto

lemma aetheryte_at_swept:
  "aetheryte_at (cleanupDistantObjects c r s) key = aetheryte_at s key \<or>
   aetheryte_at (cleanupDistantObjects c r s) key = None"
  unfolding aetheryte_at_def cleanupDistantObjects_closed
  using map_of_filter_key
    [of "\<lambda>k. \<forall>e' \<in> set (loadedAetherytes s). leaves s e' \<longrightarrow> fst e' \<noteq> k" "loadedAetherytes s" key]
  by (simp split: if_splits)

lemma stars_at_swept:
  assumes "st \<in> set (stars_at (cleanupDistantObjects c r s) key)"
  shows "st \<in> set (stars_at s key) \<or>
         (has_aetheryte s key \<and> \<not> has_aetheryte (cleanupDistantObjects c r s) key)"
proof -
  from assms have st: "st \<in> set (distantStars (cleanupDistantObjects c r s))" "gridKey st = key"
    by (simp_all add: stars_at_def)
  from swept_stars [OF st(1)]
  consider "st \<in> set (distantStars s)"
    | e where "e \<in> set (loadedAetherytes s)" "downgraded s e" "st = standIn e"
    by blast
  then show ?thesis
  proof cases
    case 1
    with st(2) show ?thesis by (simp add: stars_at_def)
  next
    case 2
    with st(2) have k: "fst e = key" by (simp add: standIn_fields)
    then have e: "(key, snd e) \<in> set (loadedAetherytes s)" "leaves s (key, snd e)"
      using 2(1,2) by (auto simp: leaves_def downgraded_def)
    from e(1) have "has_aetheryte s key"
      by (force simp: has_aetheryte_def)
    with sweep_gone [OF e] show ?thesis by simp
  qed
qed

lemma generate_unseen:
  assumes "generate c r s = Some s2" "\<not> isInViewFrustum s (gridToWorld s key)"
  shows "aetheryte_at s2 key = aetheryte_at s key \<and> stars_at s2 key = stars_at s key"
proof -
  have "same_view s2 s \<and> aetheryte_at s2 key = aetheryte_at s key \<and>
        stars_at s2 key = stars_at s key"
    using assms(1)
  proof (rule generate_invariant)
    show "same_view s s \<and> aetheryte_at s key = aetheryte_at s key \<and>
          stars_at s key = stars_at s key"
      by (simp add: same_view_def)
  next
    fix h and u :: state
    assume u: "same_view u s \<and> aetheryte_at u key = aetheryte_at s key \<and>
               stars_at u key = stars_at s key"
    show "same_view (generateCell h u) s \<and> aetheryte_at (generateCell h u) key = aetheryte_at s key \<and>
          stars_at (generateCell h u) key = stars_at s key"
    proof (cases "h = key")
      case True
      from u have "same_view u s" by simp
      from same_view_tests(2,4) [OF this] assms(2)
      have "\<not> containsPoint (camera u) (gridToWorld u key)"
        by (simp add: isInViewFrustum_def)
      with True have "generateCell h u = u"
        by (simp add: generateCell_unseen)
      with u show ?thesis by simp
    next
      case False
      with u show ?thesis
        by (simp add: same_view_generateCell generateCell_other)
    qed
  qed
  then show ?thesis by simp
qed

text \<open>
  Claim C6, as amended. For a cell whose jittered position is outside the frustum,
  a tick never creates a detailed object, and the generation loop creates nothing at
  all: the cell's map entry is the old one or gone, and a star of the cell after
  the tick is either an old star or the stand-in that the sweep put in place of the
  cell's detailed object, which has then left the map. In particular a cell with no
  representation before the tick has none after it.
\<close>

theorem unseen_cell_not_generated:
  assumes "updateProceduralAetherytes s = Some t"
    and "\<not> isInViewFrustum s (gridToWorld s key)"
  shows "(aetheryte_at t key = aetheryte_at s key \<or> aetheryte_at t key = None) \<and>
         (\<forall>st \<in> set (stars_at t key).
            st \<in> set (stars_at s key) \<or> (has_aetheryte s key \<and> \<not> has_aetheryte t key)) \<and>
         (\<not> has_aetheryte s key \<and> \<not> has_star s key \<longrightarrow>
            \<not> has_aetheryte t key \<and> \<not> has_star t key)"
proof -
  have main: "(aetheryte_at t key = aetheryte_at s key \<or> aetheryte_at t key = None) \<and>
         (\<forall>st \<in> set (stars_at t key).
            st \<in> set (stars_at s key) \<or> (has_aetheryte s key \<and> \<not> has_aetheryte t key))"
    using assms(1)
  proof (cases rule: update_cases)
    case throttled
    then show ?thesis by (simp add: aetheryte_at_def stars_at_def)
  next
    case (generated s2)
    let ?s1 = "s\<lparr>frameCount := js_add (frameCount s) 1\<rparr>"
    have "\<not> isInViewFrustum ?s1 (gridToWorld ?s1 key)"
      using assms(2) by (simp add: isInViewFrustum_def gridToWorld_def)
    from generate_unseen [OF generated(2) this]
    have s2: "aetheryte_at s2 key = aetheryte_at s key" "stars_at s2 key = stars_at s key"
      by (simp_all add: aetheryte_at_def stars_at_def)
    then have h: "has_aetheryte s2 key = has_aetheryte s key"
      by (simp add: has_aetheryte_at)
    show ?thesis
      unfolding generated(3)
      using aetheryte_at_swept [of _ _ s2 key] stars_at_swept [of _ _ _ s2 key]
      by (simp add: s2 h)
  qed
  have rest: "\<not> has_aetheryte t key \<and> \<not> has_star t key"
    if "\<not> has_aetheryte s key" "\<not> has_star s key"
  proof -
    from that have "aetheryte_at s key = None" "stars_at s key = []"
      by (simp_all add: has_aetheryte_at has_star_stars_at)
    with main have "aetheryte_at t key = None" "set (stars_at t key) = {}"
      using that(1) by auto
    then show ?thesis
      by (simp add: has_aetheryte_at has_star_stars_at)
  qed
  show ?thesis
  proof (intro conjI impI)
    show "aetheryte_at t key = aetheryte_at s key \<or> aetheryte_at t key = None"
      using main by (rule conjunct1)
    show "\<forall>st \<in> set (stars_at t key).
            st \<in> set (stars_at s key) \<or> (has_aetheryte s key \<and> \<not> has_aetheryte t key)"
      using main by (rule conjunct2)
    assume n: "\<not> has_aetheryte s key \<and> \<not> has_star s key"
    from rest [OF conjunct1 [OF n] conjunct2 [OF n]]
    show "\<not> has_aetheryte t key" "\<not> has_star t key"
      by simp_all
  qed
qed

theorem unseen_cell_not_generated_witness:
  "reachable looking_away \<and>
   (0, 0, 0) \<in> set (candidateCells (camGridPos looking_away) (checkRadius looking_away)) \<and>
   shouldHaveAetheryte looking_away (0, 0, 0) \<and>
   cellDistance looking_away (0, 0, 0) < detailDistance looking_away \<and>
   \<not> isInViewFrustum looking_away (gridToWorld looking_away (0, 0, 0)) \<and>
   js_add (frameCount looking_away) 1 mod 10 = 0 \<and>
   updateProceduralAetherytes looking_away = Some (looking_away\<lparr>frameCount := 10\<rparr>) \<and>
   \<not> has_aetheryte (looking_away\<lparr>frameCount := 10\<rparr>) (0, 0, 0) \<and>
   \<not> has_star (looking_away\<lparr>frameCount := 10\<rparr>) (0, 0, 0)"
proof -
  have c: "camGridPos looking_away = (0, 0, 1)" and r: "checkRadius looking_away = 3"
    by (simp_all add: camGridPos_def checkRadius_def grid_of_camera looking_away_def
          constructed_def)
  have cand: "(0, 0, 0) \<in> set (candidateCells (camGridPos looking_away) (checkRadius looking_away))"
    by (simp add: c r mem_candidateCells)
  have gate: "shouldHaveAetheryte looking_away (0, 0, 0)"
    by (rule home_gate [OF reachable_configured [OF reachable_looking_away]])
  have near: "cellDistance looking_away (0, 0, 0) < detailDistance looking_away"
    using home_distance
    by (simp add: cellDistance_def home_position looking_away_def constructed_def
          sqrt_less_numeral)
  have unseen: "\<not> isInViewFrustum looking_away (gridToWorld looking_away (0, 0, 0))"
    by (simp add: home_position isInViewFrustum_def looking_away_def constructed_def
          view_cell_def round_def)
  have inc: "js_add (frameCount looking_away) 1 mod 10 = 0"
    by (simp add: looking_away_def js_add_exact)
  have none: "\<not> has_aetheryte looking_away (0, 0, 0)" "\<not> has_star looking_away (0, 0, 0)"
    by (simp_all add: has_aetheryte_def has_star_def looking_away_def constructed_def)
  from unseen_cell_not_generated [OF looking_away_tick unseen] none
  have "\<not> has_aetheryte (looking_away\<lparr>frameCount := 10\<rparr>) (0, 0, 0)"
    "\<not> has_star (looking_away\<lparr>frameCount := 10\<rparr>) (0, 0, 0)"
    by simp_all
  with reachable_looking_away cand gate near unseen inc looking_away_tick show ?thesis
    by blast
qed

text \<open>
  Claim C6 as stated fails where the sweep downgrades: in \<open>turned_away\<close> the cell
  \<open>(0, 0, 0)\<close> passes the placement gate, is 190 units away (within the render
  distance of 300) and outside the frustum, and has no star; the tick creates a
  star for it.
\<close>

theorem star_created_for_unseen_cell:
  "reachable turned_away \<and>
   shouldHaveAetheryte turned_away (0, 0, 0) \<and>
   distanceTo (cam_position (camera turned_away)) (gridToWorld turned_away (0, 0, 0))
     \<le> renderDistance turned_away \<and>
   \<not> isInViewFrustum turned_away (gridToWorld turned_away (0, 0, 0)) \<and>
   \<not> has_star turned_away (0, 0, 0) \<and>
   updateProceduralAetherytes turned_away = Some star_left \<and>
   distantStars star_left = [createDistantStar (0, 0, 0) (- 10, - 10, - 10)] \<and>
   has_star star_left (0, 0, 0)"
proof -
  have w: "gridToWorld turned_away (0, 0, 0) = (- 10, - 10, - 10)"
    by (rule home_position)
  have "shouldHaveAetheryte turned_away (0, 0, 0)"
    by (rule home_gate [OF configured_turned_away])
  moreover have "distanceTo (cam_position (camera turned_away)) (- 10, - 10, - 10)
      \<le> renderDistance turned_away"
    by (simp add: camera_turned_away turned_distance)
       (simp add: turned_away_def home_loaded_def constructed_def)
  moreover have "\<not> isInViewFrustum turned_away (- 10, - 10, - 10)"
    by (simp add: isInViewFrustum_def turned_away_def view_cell_def round_def)
  moreover have "\<not> has_star turned_away (0, 0, 0)"
    by (simp add: has_star_def turned_away_def home_loaded_def constructed_def)
  moreover have "distantStars star_left = [createDistantStar (0, 0, 0) (- 10, - 10, - 10)]"
    by (simp add: star_left_def home_star_def)
  moreover have "has_star star_left (0, 0, 0)"
    by (simp add: has_star_def star_left_def home_star_fields)
  ultimately show ?thesis
    using reachable_turned_away turned_away_tick by (simp add: w)
qed

subsection \<open>The loop on a cell that passes the three tests\<close>









end
